theory Spec2Isabelle
  imports Main "HOL-Library.AList" "HOL-Library.Char_ord"
begin

section \<open>Data model of server.js\<close>

text \<open>
  A parsed JSON value, as \<^verbatim>\<open>JSON.parse\<close> returns it. The server never looks inside a
  number, so numbers are kept as integers. An object is its list of fields in insertion
  order, which is what \<^verbatim>\<open>JSON.stringify\<close> writes back; a parsed object has each key
  once.
\<close>

datatype json =
    JNull
  | JBool bool
  | JNum int
  | JStr string
  | JArr "json list"
  | JObj "(string \<times> json) list"

text \<open>A WebSocket object is known by its identity (JavaScript's \<^verbatim>\<open>===\<close> on objects).\<close>

type_synonym cref = nat

datatype readyState = CONNECTING | OPEN | CLOSING | CLOSED

datatype role = Host | Peer

text \<open>
  The fields of a WebSocket object that the server reads or writes: \<^verbatim>\<open>ws.id\<close>,
  \<^verbatim>\<open>ws.roomCode\<close> (a string or null), \<^verbatim>\<open>ws.role\<close> ('host', 'peer' or null) and the
  library's \<^verbatim>\<open>ws.readyState\<close>.
\<close>

record conn =
  ws_id :: string
  roomCode :: "string option"
  role :: "role option"
  readyState :: readyState

text \<open>
  A room, \<^verbatim>\<open>{ host: ws, peer: ws, users: Set }\<close>. The only assignment to \<^verbatim>\<open>host\<close> is the
  creating socket, so the field is never null; \<^verbatim>\<open>peer\<close> starts as null.
\<close>

record room =
  host :: cref
  peer :: "cref option"
  users :: "string set"

text \<open>
  The effects a handler leaves behind, in program order: every \<^verbatim>\<open>ws.send\<close> (the target
  and the object given to \<^verbatim>\<open>JSON.stringify\<close>) and every \<^verbatim>\<open>rooms.delete\<close>.
\<close>

datatype effect = Sent cref json | Deleted string

record state =
  conns :: "cref \<Rightarrow> conn"
  rooms :: "string \<rightharpoonup> room"
  trace :: "effect list"

section \<open>Room codes\<close>

text \<open>
  \<^verbatim>\<open>String.prototype.toUpperCase\<close> on the characters \<^verbatim>\<open>Number.prototype.toString(36)\<close>
  produces (digits, the point and the letters a to z): a lower-case letter moves down by 32.
\<close>

definition toUpperCase_char :: "char \<Rightarrow> char" where
  "toUpperCase_char c =
     (if CHR ''a'' \<le> c \<and> c \<le> CHR ''z'' then char_of (of_char c - (32::nat)) else c)"

definition toUpperCase :: "string \<Rightarrow> string" where
  "toUpperCase str = map toUpperCase_char str"

text \<open>\<^verbatim>\<open>str.substring(a, b)\<close> for \<open>a \<le> b\<close>; a short string gives a short result.\<close>

definition substring :: "nat \<Rightarrow> nat \<Rightarrow> string \<Rightarrow> string" where
  "substring a b str = take (b - a) (drop a str)"

text \<open>
  \<^verbatim>\<open>generateRoomCode\<close>. The argument stands for \<^verbatim>\<open>Math.random().toString(36)\<close>, the one
  part of the function that is not determined by the program.
\<close>

definition generateRoomCode :: "string \<Rightarrow> string" where
  "generateRoomCode rnd = toUpperCase (substring 2 8 rnd)"

section \<open>Primitive effects\<close>

text \<open>
  \<^verbatim>\<open>ws.send\<close> belongs to the WebSocket library. It is taken to return normally and is
  recorded in the trace, whatever the state of the socket; the checks of \<^verbatim>\<open>readyState\<close>
  that the server makes itself are part of the handlers below.
\<close>

definition send :: "state \<Rightarrow> cref \<Rightarrow> json \<Rightarrow> state" where
  "send s ws m = s\<lparr>trace := trace s @ [Sent ws m]\<rparr>"

definition rooms_set :: "state \<Rightarrow> string \<Rightarrow> room \<Rightarrow> state" where
  "rooms_set s code r = s\<lparr>rooms := (rooms s)(code \<mapsto> r)\<rparr>"

definition rooms_delete :: "state \<Rightarrow> string \<Rightarrow> state" where
  "rooms_delete s code =
     s\<lparr>rooms := (rooms s)(code := None), trace := trace s @ [Deleted code]\<rparr>"

definition set_affiliation :: "state \<Rightarrow> cref \<Rightarrow> string option \<Rightarrow> role option \<Rightarrow> state" where
  "set_affiliation s ws code r =
     s\<lparr>conns := (conns s)(ws := (conns s ws)\<lparr>roomCode := code, role := r\<rparr>)\<rparr>"

text \<open>\<^verbatim>\<open>target && target.readyState === WebSocket.OPEN\<close>, then \<^verbatim>\<open>target.send(m)\<close>.\<close>

definition send_if_open :: "state \<Rightarrow> cref option \<Rightarrow> json \<Rightarrow> state" where
  "send_if_open s target m =
     (case target of
        None \<Rightarrow> s
      | Some t \<Rightarrow> if readyState (conns s t) = OPEN then send s t m else s)"

text \<open>The JSON rendering of \<^verbatim>\<open>ws.role\<close>.\<close>

fun role_json :: "role option \<Rightarrow> json" where
  "role_json None = JNull"
| "role_json (Some Host) = JStr ''host''"
| "role_json (Some Peer) = JStr ''peer''"

section \<open>The handlers\<close>

subsection \<open>handleCreateRoom\<close>

text \<open>
  The \<^verbatim>\<open>do ... while (rooms.has(roomCode))\<close> loop. The list holds the values that
  successive calls of \<^verbatim>\<open>Math.random().toString(36)\<close> return; the loop has not ended
  (\<open>None\<close>) when every one of them gives a code already in the registry.
\<close>

fun handleCreateRoom_loop :: "(string \<rightharpoonup> room) \<Rightarrow> string list \<Rightarrow> string option" where
  "handleCreateRoom_loop rs [] = None"
| "handleCreateRoom_loop rs (rnd # rnds) =
     (if rs (generateRoomCode rnd) \<noteq> None then handleCreateRoom_loop rs rnds
      else Some (generateRoomCode rnd))"

definition room_created :: "string \<Rightarrow> json" where
  "room_created code =
     JObj [(''type'', JStr ''room-created''), (''roomCode'', JStr code), (''role'', JStr ''host'')]"

definition handleCreateRoom :: "state \<Rightarrow> cref \<Rightarrow> string list \<Rightarrow> state option" where
  "handleCreateRoom s ws rnds =
     (case handleCreateRoom_loop (rooms s) rnds of
        None \<Rightarrow> None
      | Some code \<Rightarrow>
          Some (send
            (set_affiliation
              (rooms_set s code \<lparr>host = ws, peer = None, users = {ws_id (conns s ws)}\<rparr>)
              ws (Some code) (Some Host))
            ws (room_created code)))"

subsection \<open>handleJoinRoom\<close>

definition error_msg :: "string \<Rightarrow> json" where
  "error_msg txt = JObj [(''type'', JStr ''error''), (''message'', JStr txt)]"

definition room_joined :: "string \<Rightarrow> json" where
  "room_joined code =
     JObj [(''type'', JStr ''room-joined''), (''roomCode'', JStr code), (''role'', JStr ''peer'')]"

definition peer_joined :: json where
  "peer_joined = JObj [(''type'', JStr ''peer-joined''), (''role'', JStr ''host'')]"

text \<open>
  The second argument is \<^verbatim>\<open>message.roomCode\<close>: any JSON value, or undefined (\<open>None\<close>).
  The keys of \<^verbatim>\<open>rooms\<close> are strings, so \<^verbatim>\<open>rooms.get\<close> finds nothing for any other value.
\<close>

fun handleJoinRoom :: "state \<Rightarrow> cref \<Rightarrow> json option \<Rightarrow> state" where
  "handleJoinRoom s ws (Some (JStr code)) =
     (case rooms s code of
        None \<Rightarrow> send s ws (error_msg ''Room not found'')
      | Some rm \<Rightarrow>
          if peer rm \<noteq> None then send s ws (error_msg ''Room is full'')
          else
            send_if_open
              (send
                (set_affiliation
                  (rooms_set s code (rm\<lparr>peer := Some ws, users := insert (ws_id (conns s ws)) (users rm)\<rparr>))
                  ws (Some code) (Some Peer))
                ws (room_joined code))
              (Some (host rm)) peer_joined)"
| "handleJoinRoom s ws other = send s ws (error_msg ''Room not found'')"

subsection \<open>forwardToPeer\<close>

text \<open>
  The message is the parsed object (its fields): the dispatcher calls this handler only
  when \<^verbatim>\<open>message.type\<close> is one of three strings, which only an object can have.
  \<^verbatim>\<open>message.senderRole = ws.role\<close> replaces the value of an existing field in place and
  appends a new field otherwise, as \<open>AList.update\<close> does.
\<close>

definition forwardToPeer :: "state \<Rightarrow> cref \<Rightarrow> (string \<times> json) list \<Rightarrow> state" where
  "forwardToPeer s ws message =
     (case roomCode (conns s ws) of
        None \<Rightarrow> s
      | Some code \<Rightarrow>
          (case rooms s code of
             None \<Rightarrow> s
           | Some rm \<Rightarrow>
               send_if_open s (if ws = host rm then peer rm else Some (host rm))
                 (JObj (AList.update ''senderRole'' (role_json (role (conns s ws))) message))))"

subsection \<open>handleLeaveRoom\<close>

definition peer_left :: "role option \<Rightarrow> json" where
  "peer_left r = JObj [(''type'', JStr ''peer-left''), (''role'', role_json r)]"

definition host_left :: json where
  "host_left = JObj [(''type'', JStr ''host-left''), (''message'', JStr ''Host has left the room'')]"

text \<open>
  \<^verbatim>\<open>if (otherPeer && otherPeer.readyState === WebSocket.OPEN)\<close>, then send the other side
  \<^verbatim>\<open>{ type: 'peer-left', role: otherPeer.role }\<close>.
\<close>

definition notify_left :: "state \<Rightarrow> cref option \<Rightarrow> state" where
  "notify_left s otherPeer =
     (case otherPeer of
        None \<Rightarrow> s
      | Some p \<Rightarrow> send_if_open s (Some p) (peer_left (role (conns s p))))"

text \<open>
  \<^verbatim>\<open>!ws.roomCode\<close> holds for null and for the empty string. After \<^verbatim>\<open>room.users.delete\<close>
  and the notification of the other side, the three-way branch deletes the room or clears
  its peer; the last two assignments clear the socket's own fields.
\<close>

definition handleLeaveRoom :: "state \<Rightarrow> cref \<Rightarrow> state" where
  "handleLeaveRoom s ws =
     (case roomCode (conns s ws) of
        None \<Rightarrow> s
      | Some code \<Rightarrow>
          if code = [] then s
          else
            (case rooms s code of
               None \<Rightarrow> s
             | Some rm \<Rightarrow>
                 (let rm1 = rm\<lparr>users := users rm - {ws_id (conns s ws)}\<rparr>;
                      s1 = rooms_set s code rm1;
                      otherPeer = (if ws = host rm then peer rm else Some (host rm));
                      s2 = notify_left s1 otherPeer;
                      s3 = (if users rm1 = {} then rooms_delete s2 code
                            else if ws = host rm then
                              rooms_delete (send_if_open s2 (peer rm) host_left) code
                            else if peer rm = Some ws then rooms_set s2 code (rm1\<lparr>peer := None\<rparr>)
                            else s2)
                  in set_affiliation s3 ws None None)))"

subsection \<open>The connection's event handlers\<close>

text \<open>The body of \<^verbatim>\<open>wss.on('connection')\<close>; the identifier is what \<^verbatim>\<open>uuidv4()\<close> returned.\<close>

definition on_connection :: "state \<Rightarrow> cref \<Rightarrow> string \<Rightarrow> state" where
  "on_connection s ws uuid =
     s\<lparr>conns := (conns s)(ws := (conns s ws)\<lparr>ws_id := uuid, roomCode := None, role := None\<rparr>)\<rparr>"

text \<open>
  The \<^verbatim>\<open>message\<close> handler. Its payload argument is the result of \<^verbatim>\<open>JSON.parse(data)\<close>,
  \<open>None\<close> when the parser throws. Reading \<^verbatim>\<open>message.type\<close> throws on null and is undefined
  on every other value that is not an object with that field; every exception ends in the
  \<^verbatim>\<open>catch\<close> block, which only logs. The \<^verbatim>\<open>switch\<close> compares with \<^verbatim>\<open>===\<close>, so only a string
  tag can match a case.
\<close>

definition on_message :: "state \<Rightarrow> cref \<Rightarrow> json option \<Rightarrow> string list \<Rightarrow> state option" where
  "on_message s ws parsed rnds =
     (case parsed of
        Some (JObj message) \<Rightarrow>
          (case map_of message ''type'' of
             Some (JStr t) \<Rightarrow>
               if t = ''create-room'' then handleCreateRoom s ws rnds
               else if t = ''join-room'' then Some (handleJoinRoom s ws (map_of message ''roomCode''))
               else if t = ''offer'' \<or> t = ''answer'' \<or> t = ''ice-candidate''
                 then Some (forwardToPeer s ws message)
               else if t = ''leave-room'' then Some (handleLeaveRoom s ws)
               else Some s
           | _ \<Rightarrow> Some s)
      | _ \<Rightarrow> Some s)"

text \<open>The \<^verbatim>\<open>close\<close> handler.\<close>

definition on_close :: "state \<Rightarrow> cref \<Rightarrow> state" where
  "on_close s ws = handleLeaveRoom s ws"

subsection \<open>Events\<close>

text \<open>
  What the WebSocket library does to the server: it opens a socket and emits
  \<^verbatim>\<open>connection\<close>, delivers a message, starts the closing handshake, or closes the socket
  and emits \<^verbatim>\<open>close\<close>. A message carries the parsed payload and the random strings its
  handling draws.
\<close>

datatype event =
    Connection cref string
  | Message cref "json option" "string list"
  | Closing cref
  | Close cref

definition set_readyState :: "state \<Rightarrow> cref \<Rightarrow> readyState \<Rightarrow> state" where
  "set_readyState s ws st = s\<lparr>conns := (conns s)(ws := (conns s ws)\<lparr>readyState := st\<rparr>)\<rparr>"

fun apply_event :: "state \<Rightarrow> event \<Rightarrow> state option" where
  "apply_event s (Connection ws uuid) = Some (on_connection (set_readyState s ws OPEN) ws uuid)"
| "apply_event s (Message ws parsed rnds) = on_message s ws parsed rnds"
| "apply_event s (Closing ws) = Some (set_readyState s ws CLOSING)"
| "apply_event s (Close ws) = Some (on_close (set_readyState s ws CLOSED) ws)"

fun run :: "state \<Rightarrow> event list \<Rightarrow> state option" where
  "run s [] = Some s"
| "run s (e # es) = (case apply_event s e of None \<Rightarrow> None | Some s' \<Rightarrow> run s' es)"

text \<open>The server at start: no room, nothing sent, no socket connected yet.\<close>

definition init :: state where
  "init = \<lparr>conns = (\<lambda>c. \<lparr>ws_id = [], roomCode = None, role = None, readyState = CONNECTING\<rparr>),
           rooms = Map.empty, trace = []\<rparr>"

text \<open>
  When the library can raise an event: a socket connects once, with an identifier no
  connected socket has (what \<^verbatim>\<open>uuidv4\<close> is for); its messages arrive while it is open or
  closing (the library hands over what it had buffered), and it closes once.
\<close>

definition connected :: "state \<Rightarrow> cref \<Rightarrow> bool" where
  "connected s c = (readyState (conns s c) \<noteq> CONNECTING)"

fun enabled :: "state \<Rightarrow> event \<Rightarrow> bool" where
  "enabled s (Connection ws uuid) =
     (\<not> connected s ws \<and> (\<forall>c. connected s c \<longrightarrow> ws_id (conns s c) \<noteq> uuid))"
| "enabled s (Message ws parsed rnds) =
     (readyState (conns s ws) = OPEN \<or> readyState (conns s ws) = CLOSING)"
| "enabled s (Closing ws) = (readyState (conns s ws) = OPEN)"
| "enabled s (Close ws) = (readyState (conns s ws) = OPEN \<or> readyState (conns s ws) = CLOSING)"

fun valid_run :: "state \<Rightarrow> event list \<Rightarrow> bool" where
  "valid_run s [] = True"
| "valid_run s (e # es) =
     (enabled s e \<and> (case apply_event s e of None \<Rightarrow> False | Some s' \<Rightarrow> valid_run s' es))"

subsection \<open>Observations\<close>

text \<open>The messages a socket has been sent, oldest first.\<close>

fun sent_to :: "cref \<Rightarrow> effect list \<Rightarrow> json list" where
  "sent_to c [] = []"
| "sent_to c (Sent t m # es) = (if t = c then m # sent_to c es else sent_to c es)"
| "sent_to c (Deleted code # es) = sent_to c es"

text \<open>A socket is referenced by a room as its host, as its peer, or through the member set.\<close>

definition member_of :: "state \<Rightarrow> room \<Rightarrow> cref \<Rightarrow> bool" where
  "member_of s rm c = (host rm = c \<or> peer rm = Some c \<or> ws_id (conns s c) \<in> users rm)"

definition in_session :: "string \<Rightarrow> cref \<Rightarrow> state \<Rightarrow> bool" where
  "in_session code c s = (case rooms s code of None \<Rightarrow> False | Some rm \<Rightarrow> member_of s rm c)"

text \<open>The type tag the \<^verbatim>\<open>switch\<close> sees, when it is a string.\<close>

definition type_tag :: "json option \<Rightarrow> string option" where
  "type_tag parsed =
     (case parsed of
        Some (JObj message) \<Rightarrow>
          (case map_of message ''type'' of Some (JStr t) \<Rightarrow> Some t | _ \<Rightarrow> None)
      | _ \<Rightarrow> None)"

definition known_types :: "string list" where
  "known_types =
     [''create-room'', ''join-room'', ''offer'', ''answer'', ''ice-candidate'', ''leave-room'']"

definition received :: "cref \<Rightarrow> state \<Rightarrow> json list" where
  "received c s = sent_to c (trace s)"

definition affiliation :: "cref \<Rightarrow> state \<Rightarrow> string option \<times> role option" where
  "affiliation c s = (roomCode (conns s c), role (conns s c))"

definition room_at :: "string \<Rightarrow> state \<Rightarrow> room option" where
  "room_at code s = rooms s code"

text \<open>
  A departure of a socket: its \<^verbatim>\<open>leave-room\<close> message, or the \<^verbatim>\<open>close\<close> of its connection.
\<close>

fun departure :: "cref \<Rightarrow> event \<Rightarrow> bool" where
  "departure ws (Message c parsed rnds) = (c = ws \<and> type_tag parsed = Some ''leave-room'')"
| "departure ws (Close c) = (c = ws)"
| "departure ws e = False"


text \<open>The events that are a \<^verbatim>\<open>create-room\<close> message.\<close>

fun is_create :: "event \<Rightarrow> bool" where
  "is_create (Message ws parsed rnds) = (type_tag parsed = Some ''create-room'')"
| "is_create e = False"

subsection \<open>Reachable states\<close>

text \<open>
  The states the server can be in: from the start, any enabled event that the filter
  \<open>ok\<close> admits. With the filter that admits everything these are all the states of the
  running server.
\<close>

inductive reachable_via :: "(state \<Rightarrow> event \<Rightarrow> bool) \<Rightarrow> state \<Rightarrow> bool"
  for ok :: "state \<Rightarrow> event \<Rightarrow> bool" where
  reachable_init: "reachable_via ok init"
| reachable_step:
    "reachable_via ok s \<Longrightarrow> enabled s e \<Longrightarrow> ok s e \<Longrightarrow> apply_event s e = Some s'
     \<Longrightarrow> reachable_via ok s'"

text \<open>A list of events that can happen in this order from a state, each admitted by the filter.\<close>

fun admitted :: "(state \<Rightarrow> event \<Rightarrow> bool) \<Rightarrow> state \<Rightarrow> event list \<Rightarrow> bool" where
  "admitted ok s [] = True"
| "admitted ok s (e # es) =
     (enabled s e \<and> ok s e \<and>
      (case apply_event s e of None \<Rightarrow> False | Some s' \<Rightarrow> admitted ok s' es))"

definition any_event :: "state \<Rightarrow> event \<Rightarrow> bool" where
  "any_event s e = True"

definition reachable :: "state \<Rightarrow> bool" where
  "reachable s = reachable_via any_event s"

text \<open>
  The discipline of a well-behaved client, which the server does not check: a socket asks
  for a room (\<^verbatim>\<open>create-room\<close> or \<^verbatim>\<open>join-room\<close>) only while no room references it.
\<close>

fun room_request :: "event \<Rightarrow> cref option" where
  "room_request (Message ws parsed rnds) =
     (if type_tag parsed = Some ''create-room'' \<or> type_tag parsed = Some ''join-room''
      then Some ws else None)"
| "room_request e = None"

definition requests_unreferenced :: "state \<Rightarrow> event \<Rightarrow> bool" where
  "requests_unreferenced s e =
     (case room_request e of None \<Rightarrow> True | Some ws \<Rightarrow> (\<forall>code. \<not> in_session code ws s))"

text \<open>
  Two states agree on the sockets: the same identifiers, and the same sockets connected.
\<close>

definition same_sockets :: "state \<Rightarrow> state \<Rightarrow> bool" where
  "same_sockets s s' =
     (\<forall>c. ws_id (conns s' c) = ws_id (conns s c) \<and> connected s' c = connected s c)"

text \<open>
  The shape of the registry in a running server: connected sockets have different
  identifiers; the host and the peer of a room are connected sockets and every member
  identifier is a connected socket's; the member set holds the identifier of the host and
  of the peer.
\<close>

definition unique_ids :: "state \<Rightarrow> bool" where
  "unique_ids s =
     (\<forall>c c'. connected s c \<and> connected s c' \<and> ws_id (conns s c) = ws_id (conns s c') \<longrightarrow> c = c')"

definition members_connected :: "state \<Rightarrow> bool" where
  "members_connected s =
     (\<forall>code rm. rooms s code = Some rm \<longrightarrow>
        connected s (host rm) \<and> (\<forall>p. peer rm = Some p \<longrightarrow> connected s p) \<and>
        (\<forall>u \<in> users rm. \<exists>c. connected s c \<and> ws_id (conns s c) = u))"

definition members_recorded :: "state \<Rightarrow> bool" where
  "members_recorded s =
     (\<forall>code rm. rooms s code = Some rm \<longrightarrow>
        ws_id (conns s (host rm)) \<in> users rm \<and>
        (\<forall>p. peer rm = Some p \<longrightarrow> ws_id (conns s p) \<in> users rm))"

definition well_formed :: "state \<Rightarrow> bool" where
  "well_formed s = (unique_ids s \<and> members_connected s \<and> members_recorded s)"

text \<open>A socket belongs to at most one room.\<close>

definition at_most_one_session :: "state \<Rightarrow> bool" where
  "at_most_one_session s =
     (\<forall>c code code'. connected s c \<and> in_session code c s \<and> in_session code' c s \<longrightarrow> code = code')"

text \<open>Every code in the registry is its own upper-case form.\<close>

definition canonical_codes :: "state \<Rightarrow> bool" where
  "canonical_codes s = (\<forall>code \<in> dom (rooms s). toUpperCase code = code)"

subsection \<open>Inbound messages and sample states used in the examples\<close>

definition create_room :: "json option" where
  "create_room = Some (JObj [(''type'', JStr ''create-room'')])"

definition join_room :: "string \<Rightarrow> json option" where
  "join_room code = Some (JObj [(''type'', JStr ''join-room''), (''roomCode'', JStr code)])"

definition leave_room :: "json option" where
  "leave_room = Some (JObj [(''type'', JStr ''leave-room'')])"

definition offer :: "(string \<times> json) list" where
  "offer = [(''type'', JStr ''offer''), (''sdp'', JStr ''v=0'')]"

text \<open>An offer in which the sender has filled in \<^verbatim>\<open>senderRole\<close> itself.\<close>

definition spoofed_offer :: "(string \<times> json) list" where
  "spoofed_offer =
     [(''type'', JStr ''offer''), (''senderRole'', JStr ''host''), (''sdp'', JStr ''v=0'')]"

text \<open>Socket 0 connects and creates a room; socket 1 connects.\<close>

definition hosted_events :: "event list" where
  "hosted_events =
     [Connection 0 ''u0'', Connection 1 ''u1'', Message 0 create_room [''0.abc123xyz'']]"

text \<open>Then socket 1 joins the room.\<close>

definition paired_events :: "event list" where
  "paired_events = hosted_events @ [Message 1 (join_room ''ABC123'') []]"

definition hosted :: state where
  "hosted =
     \<lparr>conns = (\<lambda>c. \<lparr>ws_id = [], roomCode = None, role = None, readyState = CONNECTING\<rparr>)
        (0 := \<lparr>ws_id = ''u0'', roomCode = Some ''ABC123'', role = Some Host, readyState = OPEN\<rparr>,
         1 := \<lparr>ws_id = ''u1'', roomCode = None, role = None, readyState = OPEN\<rparr>),
      rooms = [''ABC123'' \<mapsto> \<lparr>host = 0, peer = None, users = {''u0''}\<rparr>],
      trace = [Sent 0 (room_created ''ABC123'')]\<rparr>"

definition paired :: state where
  "paired =
     \<lparr>conns = (\<lambda>c. \<lparr>ws_id = [], roomCode = None, role = None, readyState = CONNECTING\<rparr>)
        (0 := \<lparr>ws_id = ''u0'', roomCode = Some ''ABC123'', role = Some Host, readyState = OPEN\<rparr>,
         1 := \<lparr>ws_id = ''u1'', roomCode = Some ''ABC123'', role = Some Peer, readyState = OPEN\<rparr>),
      rooms = [''ABC123'' \<mapsto> \<lparr>host = 0, peer = Some 1, users = {''u0'', ''u1''}\<rparr>],
      trace = [Sent 0 (room_created ''ABC123''), Sent 1 (room_joined ''ABC123''), Sent 0 peer_joined]\<rparr>"

text \<open>One socket that sends \<^verbatim>\<open>create-room\<close> twice.\<close>

definition double_create_events :: "event list" where
  "double_create_events =
     [Connection 0 ''u0'', Message 0 create_room [''0.abc123xyz''],
      Message 0 create_room [''0.def456uvw'']]"

text \<open>
  The peer of the sample room creates a room of its own and then disconnects.
\<close>

definition peer_rehosts_events :: "event list" where
  "peer_rehosts_events = paired_events @ [Message 1 create_room [''0.def456uvw''], Close 1]"


text \<open>
  A room created when \<^verbatim>\<open>Math.random()\<close> returns 0, whose base-36 form is the single digit
  0; socket 1 joins it and leaves again.
\<close>

definition empty_code_events :: "event list" where
  "empty_code_events =
     [Connection 0 ''u0'', Connection 1 ''u1'', Message 0 create_room [''0''],
      Message 1 (join_room []) [], Message 1 leave_room []]"

text \<open>The \<^verbatim>\<open>readyState\<close> of a socket.\<close>

definition ready :: "cref \<Rightarrow> state \<Rightarrow> readyState" where
  "ready c s = readyState (conns s c)"




section \<open>Basic facts about the primitive effects\<close>

lemma send_fields [simp]:
  "conns (send s ws m) = conns s"
  "rooms (send s ws m) = rooms s"
  "trace (send s ws m) = trace s @ [Sent ws m]"
  by (simp_all add: send_def)

lemma rooms_set_fields [simp]:
  "conns (rooms_set s code r) = conns s"
  "rooms (rooms_set s code r) = (rooms s)(code \<mapsto> r)"
  "trace (rooms_set s code r) = trace s"
  by (simp_all add: rooms_set_def)

lemma rooms_delete_fields [simp]:
  "conns (rooms_delete s code) = conns s"
  "rooms (rooms_delete s code) = (rooms s)(code := None)"
  "trace (rooms_delete s code) = trace s @ [Deleted code]"
  by (simp_all add: rooms_delete_def)

lemma set_affiliation_fields [simp]:
  "conns (set_affiliation s ws code r) = (conns s)(ws := (conns s ws)\<lparr>roomCode := code, role := r\<rparr>)"
  "rooms (set_affiliation s ws code r) = rooms s"
  "trace (set_affiliation s ws code r) = trace s"
  by (simp_all add: set_affiliation_def)

lemma send_if_open_fields [simp]:
  "conns (send_if_open s target m) = conns s"
  "rooms (send_if_open s target m) = rooms s"
  by (simp_all add: send_if_open_def split: option.splits)

lemma send_if_open_trace:
  "trace (send_if_open s target m) =
     (case target of
        None \<Rightarrow> trace s
      | Some t \<Rightarrow> if readyState (conns s t) = OPEN then trace s @ [Sent t m] else trace s)"
  by (simp add: send_if_open_def split: option.splits)

lemma notify_left_fields [simp]:
  "conns (notify_left s target) = conns s"
  "rooms (notify_left s target) = rooms s"
  by (simp_all add: notify_left_def split: option.splits)

lemma notify_left_trace:
  "trace (notify_left s target) =
     (case target of
        None \<Rightarrow> trace s
      | Some p \<Rightarrow>
          if readyState (conns s p) = OPEN
          then trace s @ [Sent p (peer_left (role (conns s p)))] else trace s)"
  by (simp add: notify_left_def send_if_open_trace split: option.splits)

lemma set_readyState_fields [simp]:
  "conns (set_readyState s ws st) = (conns s)(ws := (conns s ws)\<lparr>readyState := st\<rparr>)"
  "rooms (set_readyState s ws st) = rooms s"
  "trace (set_readyState s ws st) = trace s"
  by (simp_all add: set_readyState_def)

lemma on_connection_fields [simp]:
  "conns (on_connection s ws uuid) =
     (conns s)(ws := (conns s ws)\<lparr>ws_id := uuid, roomCode := None, role := None\<rparr>)"
  "rooms (on_connection s ws uuid) = rooms s"
  "trace (on_connection s ws uuid) = trace s"
  by (simp_all add: on_connection_def)

lemma sent_to_append [simp]: "sent_to c (xs @ ys) = sent_to c xs @ sent_to c ys"
  by (induction c xs rule: sent_to.induct) simp_all

section \<open>Dispatch\<close>

lemma type_tag_SomeD:
  "type_tag parsed = Some t \<Longrightarrow>
   \<exists>message. parsed = Some (JObj message) \<and> map_of message ''type'' = Some (JStr t)"
  by (auto simp: type_tag_def split: option.splits json.splits)

lemma on_message_leave:
  "type_tag parsed = Some ''leave-room'' \<Longrightarrow>
   on_message s ws parsed rnds = Some (handleLeaveRoom s ws)"
  by (auto dest!: type_tag_SomeD simp: on_message_def)

lemma on_message_join:
  "map_of message ''type'' = Some (JStr ''join-room'') \<Longrightarrow>
   on_message s ws (Some (JObj message)) rnds =
     Some (handleJoinRoom s ws (map_of message ''roomCode''))"
  by (simp add: on_message_def)

lemma on_message_create:
  "type_tag parsed = Some ''create-room'' \<Longrightarrow>
   on_message s ws parsed rnds = handleCreateRoom s ws rnds"
  by (auto dest!: type_tag_SomeD simp: on_message_def)

lemma on_message_relay:
  "map_of message ''type'' = Some (JStr t) \<Longrightarrow> t = ''offer'' \<or> t = ''answer'' \<or> t = ''ice-candidate''
   \<Longrightarrow> on_message s ws (Some (JObj message)) rnds = Some (forwardToPeer s ws message)"
  by (auto simp: on_message_def)

lemma on_message_untagged:
  assumes "type_tag parsed = None"
  shows "on_message s ws parsed rnds = Some s"
proof (cases parsed)
  case None
  then show ?thesis by (simp add: on_message_def)
next
  case (Some j)
  show ?thesis
  proof (cases j)
    case (JObj message)
    show ?thesis
    proof (cases "map_of message ''type''")
      case None
      with Some JObj show ?thesis by (simp add: on_message_def)
    next
      case (Some v)
      with assms \<open>parsed = Some j\<close> JObj show ?thesis
        by (cases v) (simp_all add: on_message_def type_tag_def)
    qed
  qed (use Some in \<open>simp_all add: on_message_def\<close>)
qed

lemma on_message_unknown_tag:
  assumes "type_tag parsed = Some t" "t \<notin> set known_types"
  shows "on_message s ws parsed rnds = Some s"
proof -
  from assms(1) obtain message where
    m: "parsed = Some (JObj message)" "map_of message ''type'' = Some (JStr t)"
    using type_tag_SomeD by blast
  from assms(2) have "t \<noteq> ''create-room''" "t \<noteq> ''join-room''" "t \<noteq> ''offer''"
    "t \<noteq> ''answer''" "t \<noteq> ''ice-candidate''" "t \<noteq> ''leave-room''"
    by (simp_all add: known_types_def)
  with m show ?thesis by (simp add: on_message_def)
qed

lemma on_message_ignored:
  assumes "type_tag parsed \<notin> Some ` set known_types"
  shows "on_message s ws parsed rnds = Some s"
proof (cases "type_tag parsed")
  case None
  then show ?thesis by (rule on_message_untagged)
next
  case (Some t)
  with assms have "t \<notin> set known_types" by blast
  with Some show ?thesis by (rule on_message_unknown_tag)
qed

text \<open>
  A departure runs \<^verbatim>\<open>handleLeaveRoom\<close>; at a \<^verbatim>\<open>close\<close> the library has set the socket's
  \<^verbatim>\<open>readyState\<close> to closed before.
\<close>

lemma departure_runs_leave:
  assumes "departure ws e"
  shows "apply_event s e = Some (handleLeaveRoom s ws) \<or>
         apply_event s e = Some (handleLeaveRoom (set_readyState s ws CLOSED) ws)"
  using assms by (cases e) (simp_all add: on_message_leave on_close_def)

lemma gen_abc [simp]: "generateRoomCode ''0.abc123xyz'' = ''ABC123''"
  by code_simp

lemma gen_def [simp]: "generateRoomCode ''0.def456uvw'' = ''DEF456''"
  by code_simp

lemma gen_zero [simp]: "generateRoomCode ''0'' = []"
  by code_simp

lemmas scenario_simps = on_message_def handleCreateRoom_def handleLeaveRoom_def forwardToPeer_def
  on_close_def init_def create_room_def join_room_def leave_room_def received_def send_if_open_def
  notify_left_def Let_def connected_def hosted_events_def paired_events_def affiliation_def
  room_at_def

lemma run_hosted: "run init hosted_events = Some hosted"
  by (simp add: scenario_simps hosted_def send_def rooms_set_def set_affiliation_def
        on_connection_def set_readyState_def)
     (auto simp: fun_eq_iff)

lemma run_paired: "run init paired_events = Some paired"
  by (simp add: scenario_simps paired_def send_def rooms_set_def set_affiliation_def
        on_connection_def set_readyState_def)
     (auto simp: fun_eq_iff)

lemma valid_paired: "valid_run init paired_events"
  by (simp add: scenario_simps)

section \<open>handleLeaveRoom, branch by branch\<close>

lemma handleLeaveRoom_noop:
  "roomCode (conns s ws) = None \<or> roomCode (conns s ws) = Some [] \<or>
   (\<exists>code. roomCode (conns s ws) = Some code \<and> rooms s code = None)
   \<Longrightarrow> handleLeaveRoom s ws = s"
  by (auto simp: handleLeaveRoom_def)

lemma handleLeaveRoom_conns:
  assumes "roomCode (conns s ws) = Some code" "code \<noteq> []" "rooms s code = Some rm"
  shows "conns (handleLeaveRoom s ws) = (conns s)(ws := (conns s ws)\<lparr>roomCode := None, role := None\<rparr>)"
  using assms by (simp add: handleLeaveRoom_def Let_def)

lemma handleLeaveRoom_host_rooms:
  assumes "roomCode (conns s ws) = Some code" "code \<noteq> []" "rooms s code = Some rm" "host rm = ws"
  shows "rooms (handleLeaveRoom s ws) = (rooms s)(code := None)"
  using assms by (simp add: handleLeaveRoom_def Let_def)

lemma handleLeaveRoom_host_trace:
  assumes "roomCode (conns s ws) = Some code" "code \<noteq> []" "rooms s code = Some rm" "host rm = ws"
    and "peer rm = Some p" "p \<noteq> ws" "readyState (conns s p) = OPEN"
    and "ws_id (conns s p) \<in> users rm" "ws_id (conns s p) \<noteq> ws_id (conns s ws)"
  shows "trace (handleLeaveRoom s ws) =
           trace s @ [Sent p (peer_left (role (conns s p))), Sent p host_left, Deleted code]"
proof -
  from assms have "users rm - {ws_id (conns s ws)} \<noteq> {}" by blast
  with assms show ?thesis
    by (simp add: handleLeaveRoom_def Let_def send_if_open_trace notify_left_trace)
qed

lemma handleLeaveRoom_peer:
  assumes "roomCode (conns s ws) = Some code" "code \<noteq> []" "rooms s code = Some rm"
    and "peer rm = Some ws" "host rm \<noteq> ws" "readyState (conns s (host rm)) = OPEN"
    and "ws_id (conns s (host rm)) \<in> users rm" "ws_id (conns s (host rm)) \<noteq> ws_id (conns s ws)"
  shows "rooms (handleLeaveRoom s ws) =
           (rooms s)(code \<mapsto> rm\<lparr>users := users rm - {ws_id (conns s ws)}, peer := None\<rparr>)"
    and "trace (handleLeaveRoom s ws) =
           trace s @ [Sent (host rm) (peer_left (role (conns s (host rm))))]"
proof -
  from assms have ne: "users rm - {ws_id (conns s ws)} \<noteq> {}" by blast
  from assms ne show "rooms (handleLeaveRoom s ws) =
           (rooms s)(code \<mapsto> rm\<lparr>users := users rm - {ws_id (conns s ws)}, peer := None\<rparr>)"
    by (simp add: handleLeaveRoom_def Let_def)
  from assms ne show "trace (handleLeaveRoom s ws) =
           trace s @ [Sent (host rm) (peer_left (role (conns s (host rm))))]"
    by (simp add: handleLeaveRoom_def Let_def send_if_open_trace notify_left_trace)
qed

section \<open>Failed joins\<close>

lemma handleJoinRoom_not_found:
  assumes "\<forall>code. rc = Some (JStr code) \<longrightarrow> rooms s code = None"
  shows "handleJoinRoom s ws rc = send s ws (error_msg ''Room not found'')"
  using assms by (cases "(s, ws, rc)" rule: handleJoinRoom.cases) simp_all

lemma handleJoinRoom_full:
  assumes "rooms s code = Some rm" "peer rm = Some p"
  shows "handleJoinRoom s ws (Some (JStr code)) = send s ws (error_msg ''Room is full'')"
  using assms by simp

text \<open>
  C3. A \<^verbatim>\<open>join-room\<close> request whose code names no room is answered with the error
  'Room not found', sent to the requester only; one whose room already has a peer is
  answered with 'Room is full', sent to the requester only, and the peer stays. In both
  cases the registry, every room and every socket's fields are as before: the only effect
  is the one message.
\<close>

theorem join_room_failure:
  assumes "map_of message ''type'' = Some (JStr ''join-room'')"
  shows "((\<forall>code. map_of message ''roomCode'' = Some (JStr code) \<longrightarrow> rooms s code = None) \<longrightarrow>
            (\<exists>s'. on_message s ws (Some (JObj message)) rnds = Some s' \<and>
                  trace s' = trace s @ [Sent ws (error_msg ''Room not found'')] \<and>
                  rooms s' = rooms s \<and> conns s' = conns s))
       \<and> (\<forall>code rm p. map_of message ''roomCode'' = Some (JStr code) \<and> rooms s code = Some rm \<and>
              peer rm = Some p \<longrightarrow>
            (\<exists>s'. on_message s ws (Some (JObj message)) rnds = Some s' \<and>
                  trace s' = trace s @ [Sent ws (error_msg ''Room is full'')] \<and>
                  rooms s' = rooms s \<and> conns s' = conns s \<and>
                  map_option peer (rooms s' code) = Some (Some p)))"
proof (intro conjI impI allI)
  assume "\<forall>code. map_of message ''roomCode'' = Some (JStr code) \<longrightarrow> rooms s code = None"
  then have "handleJoinRoom s ws (map_of message ''roomCode'') = send s ws (error_msg ''Room not found'')"
    by (rule handleJoinRoom_not_found)
  with assms show "\<exists>s'. on_message s ws (Some (JObj message)) rnds = Some s' \<and>
                  trace s' = trace s @ [Sent ws (error_msg ''Room not found'')] \<and>
                  rooms s' = rooms s \<and> conns s' = conns s"
    by (simp add: on_message_join)
next
  fix code rm p
  assume a: "map_of message ''roomCode'' = Some (JStr code) \<and> rooms s code = Some rm \<and> peer rm = Some p"
  then have "handleJoinRoom s ws (map_of message ''roomCode'') = send s ws (error_msg ''Room is full'')"
    by (simp add: handleJoinRoom_full)
  with assms a show "\<exists>s'. on_message s ws (Some (JObj message)) rnds = Some s' \<and>
                  trace s' = trace s @ [Sent ws (error_msg ''Room is full'')] \<and>
                  rooms s' = rooms s \<and> conns s' = conns s \<and>
                  map_option peer (rooms s' code) = Some (Some p)"
    by (simp add: on_message_join)
qed

text \<open>
  In the sample state with one full room, a third socket that asks for the full room gets
  'Room is full', and one that asks for a code with no room gets 'Room not found'.
\<close>

theorem join_room_failure_witness:
  "(\<exists>s'. on_message paired 2 (join_room ''ZZZZZZ'') [] = Some s' \<and>
         trace s' = trace paired @ [Sent 2 (error_msg ''Room not found'')] \<and>
         rooms s' = rooms paired \<and> conns s' = conns paired)
   \<and> (\<exists>s'. on_message paired 2 (join_room ''ABC123'') [] = Some s' \<and>
         trace s' = trace paired @ [Sent 2 (error_msg ''Room is full'')] \<and>
         rooms s' = rooms paired \<and> conns s' = conns paired \<and>
         map_option peer (rooms s' ''ABC123'') = Some (Some 1))"
proof -
  have t1: "map_of [(''type'', JStr ''join-room''), (''roomCode'', JStr ''ZZZZZZ'')] ''type''
              = Some (JStr ''join-room'')"
    and t2: "map_of [(''type'', JStr ''join-room''), (''roomCode'', JStr ''ABC123'')] ''type''
              = Some (JStr ''join-room'')"
    by simp_all
  have nf: "\<forall>code. map_of [(''type'', JStr ''join-room''), (''roomCode'', JStr ''ZZZZZZ'')] ''roomCode''
               = Some (JStr code) \<longrightarrow> rooms paired code = None"
    by (simp add: paired_def)
  have full: "map_of [(''type'', JStr ''join-room''), (''roomCode'', JStr ''ABC123'')] ''roomCode''
               = Some (JStr ''ABC123'') \<and>
             rooms paired ''ABC123'' = Some \<lparr>host = 0, peer = Some 1, users = {''u0'', ''u1''}\<rparr> \<and>
             peer \<lparr>host = 0, peer = Some 1, users = {''u0'', ''u1''}\<rparr> = Some 1"
    by (simp add: paired_def)
  from join_room_failure [OF t1, of paired 2 "[]"] nf
  have a: "\<exists>s'. on_message paired 2 (join_room ''ZZZZZZ'') [] = Some s' \<and>
         trace s' = trace paired @ [Sent 2 (error_msg ''Room not found'')] \<and>
         rooms s' = rooms paired \<and> conns s' = conns paired"
    unfolding join_room_def by blast
  from join_room_failure [OF t2, of paired 2 "[]"] full
  have b: "\<exists>s'. on_message paired 2 (join_room ''ABC123'') [] = Some s' \<and>
         trace s' = trace paired @ [Sent 2 (error_msg ''Room is full'')] \<and>
         rooms s' = rooms paired \<and> conns s' = conns paired \<and>
         map_option peer (rooms s' ''ABC123'') = Some (Some 1)"
    unfolding join_room_def by blast
  from a b show ?thesis by (rule conjI)
qed

section \<open>Ignored messages\<close>

text \<open>
  C9. A message whose payload does not parse, or whose type tag is none of the six the
  dispatcher knows, changes nothing: no room, no socket field (the socket's \<^verbatim>\<open>readyState\<close>
  among them, so the connection stays as it was) and no message sent. The handler returns
  normally, so the events after it are handled as if it had not come.
\<close>

theorem unrecognized_message_dropped:
  assumes "parsed = None \<or> type_tag parsed \<notin> Some ` set known_types"
  shows "on_message s ws parsed rnds = Some s \<and>
         run s (Message ws parsed rnds # es) = run s es"
proof -
  from assms have "type_tag parsed \<notin> Some ` set known_types"
    by (auto simp: type_tag_def)
  then have "on_message s ws parsed rnds = Some s" by (rule on_message_ignored)
  then show ?thesis by simp
qed

theorem unrecognized_message_dropped_witness:
  "on_message paired 1 None [] = Some paired \<and>
   on_message paired 1 (Some (JObj [(''type'', JStr ''chat''), (''text'', JStr ''hi'')])) [] = Some paired \<and>
   on_message paired 1 (Some JNull) [] = Some paired \<and>
   run paired [Message 1 (Some (JObj [(''type'', JNum 7)])) [], Close 1] = run paired [Close 1]"
proof -
  have "type_tag (Some (JObj [(''type'', JStr ''chat''), (''text'', JStr ''hi'')])) \<notin> Some ` set known_types"
    by (simp add: type_tag_def known_types_def)
  moreover have "type_tag (Some JNull) \<notin> Some ` set known_types"
    by (simp add: type_tag_def known_types_def)
  moreover have "type_tag (Some (JObj [(''type'', JNum 7)])) \<notin> Some ` set known_types"
    by (simp add: type_tag_def known_types_def)
  ultimately show ?thesis
    using unrecognized_message_dropped [of None paired 1 "[]" "[]"]
      unrecognized_message_dropped [of "Some (JObj [(''type'', JStr ''chat''), (''text'', JStr ''hi'')])" paired 1 "[]" "[]"]
      unrecognized_message_dropped [of "Some JNull" paired 1 "[]" "[]"]
      unrecognized_message_dropped [of "Some (JObj [(''type'', JNum 7)])" paired 1 "[]" "[Close 1]"]
    by blast
qed

section \<open>Departures\<close>

text \<open>
  The state a departure hands to \<^verbatim>\<open>handleLeaveRoom\<close> agrees with the state before the event
  on everything a hypothesis below reads.
\<close>

lemma departure_leave_state:
  assumes "departure ws e"
  shows "\<exists>s0. apply_event s e = Some (handleLeaveRoom s0 ws) \<and>
          rooms s0 = rooms s \<and> trace s0 = trace s \<and>
          (\<forall>c. c \<noteq> ws \<longrightarrow> conns s0 c = conns s c) \<and>
          (\<forall>c. roomCode (conns s0 c) = roomCode (conns s c)) \<and>
          (\<forall>c. role (conns s0 c) = role (conns s c)) \<and>
          (\<forall>c. ws_id (conns s0 c) = ws_id (conns s c))"
proof -
  from departure_runs_leave [OF assms, of s]
  consider "apply_event s e = Some (handleLeaveRoom s ws)"
    | "apply_event s e = Some (handleLeaveRoom (set_readyState s ws CLOSED) ws)"
    by blast
  then show ?thesis
  proof cases
    case 1
    then show ?thesis by (intro exI [of _ s]) simp
  next
    case 2
    then show ?thesis by (intro exI [of _ "set_readyState s ws CLOSED"]) simp
  qed
qed

lemma host_departure_local:
  assumes "departure ws e"
    and "roomCode (conns s ws) = Some code" "code \<noteq> []" "rooms s code = Some rm" "host rm = ws"
    and "peer rm = Some p" "p \<noteq> ws" "readyState (conns s p) = OPEN"
    and "ws_id (conns s p) \<in> users rm" "ws_id (conns s p) \<noteq> ws_id (conns s ws)"
  shows "\<exists>s'. apply_event s e = Some s' \<and> rooms s' = (rooms s)(code := None) \<and>
          trace s' = trace s @ [Sent p (peer_left (role (conns s p))), Sent p host_left, Deleted code]"
proof -
  from assms(1) obtain s0 where s0: "apply_event s e = Some (handleLeaveRoom s0 ws)"
    "rooms s0 = rooms s" "trace s0 = trace s"
    "\<And>c. c \<noteq> ws \<Longrightarrow> conns s0 c = conns s c"
    "\<And>c. roomCode (conns s0 c) = roomCode (conns s c)"
    "\<And>c. ws_id (conns s0 c) = ws_id (conns s c)"
    using departure_leave_state [of ws e s] by blast
  have a: "roomCode (conns s0 ws) = Some code" "rooms s0 code = Some rm"
    using assms s0 by simp_all
  have b: "readyState (conns s0 p) = OPEN" "ws_id (conns s0 p) \<in> users rm"
    "ws_id (conns s0 p) \<noteq> ws_id (conns s0 ws)"
    using assms s0 by simp_all
  have "rooms (handleLeaveRoom s0 ws) = (rooms s0)(code := None)"
    using a(1) \<open>code \<noteq> []\<close> a(2) \<open>host rm = ws\<close> by (rule handleLeaveRoom_host_rooms)
  moreover have "trace (handleLeaveRoom s0 ws) =
      trace s0 @ [Sent p (peer_left (role (conns s0 p))), Sent p host_left, Deleted code]"
    using a(1) \<open>code \<noteq> []\<close> a(2) \<open>host rm = ws\<close> \<open>peer rm = Some p\<close> \<open>p \<noteq> ws\<close> b
    by (rule handleLeaveRoom_host_trace)
  ultimately show ?thesis using s0 \<open>p \<noteq> ws\<close> by simp
qed

lemma handleJoinRoom_free:
  assumes "rooms s code = Some rm" "peer rm = None"
  shows "rooms (handleJoinRoom s c (Some (JStr code))) =
           (rooms s)(code \<mapsto> rm\<lparr>peer := Some c, users := insert (ws_id (conns s c)) (users rm)\<rparr>)"
    and "conns (handleJoinRoom s c (Some (JStr code))) =
           (conns s)(c := (conns s c)\<lparr>roomCode := Some code, role := Some Peer\<rparr>)"
  using assms by simp_all

lemma peer_departure_local:
  assumes "departure ws e"
    and "roomCode (conns s ws) = Some code" "code \<noteq> []" "rooms s code = Some rm"
    and "peer rm = Some ws" "host rm \<noteq> ws" "readyState (conns s (host rm)) = OPEN"
    and "ws_id (conns s (host rm)) \<in> users rm" "ws_id (conns s (host rm)) \<noteq> ws_id (conns s ws)"
  shows "\<exists>s'. apply_event s e = Some s' \<and>
          rooms s' = (rooms s)(code \<mapsto> rm\<lparr>users := users rm - {ws_id (conns s ws)}, peer := None\<rparr>) \<and>
          trace s' = trace s @ [Sent (host rm) (peer_left (role (conns s (host rm))))] \<and>
          (\<forall>c. map_option peer (rooms (handleJoinRoom s' c (Some (JStr code))) code) = Some (Some c))"
proof -
  from assms(1) obtain s0 where s0: "apply_event s e = Some (handleLeaveRoom s0 ws)"
    "rooms s0 = rooms s" "trace s0 = trace s"
    "\<And>c. c \<noteq> ws \<Longrightarrow> conns s0 c = conns s c"
    "\<And>c. roomCode (conns s0 c) = roomCode (conns s c)"
    "\<And>c. ws_id (conns s0 c) = ws_id (conns s c)"
    using departure_leave_state [of ws e s] by blast
  have a: "roomCode (conns s0 ws) = Some code" "rooms s0 code = Some rm"
    using assms s0 by simp_all
  have b: "readyState (conns s0 (host rm)) = OPEN" "ws_id (conns s0 (host rm)) \<in> users rm"
    "ws_id (conns s0 (host rm)) \<noteq> ws_id (conns s0 ws)"
    using assms s0 by simp_all
  let ?s' = "handleLeaveRoom s0 ws"
  have r: "rooms ?s' = (rooms s0)(code \<mapsto> rm\<lparr>users := users rm - {ws_id (conns s0 ws)}, peer := None\<rparr>)"
    using a(1) \<open>code \<noteq> []\<close> a(2) \<open>peer rm = Some ws\<close> \<open>host rm \<noteq> ws\<close> b
    by (rule handleLeaveRoom_peer(1))
  have t: "trace ?s' = trace s0 @ [Sent (host rm) (peer_left (role (conns s0 (host rm))))]"
    using a(1) \<open>code \<noteq> []\<close> a(2) \<open>peer rm = Some ws\<close> \<open>host rm \<noteq> ws\<close> b
    by (rule handleLeaveRoom_peer(2))
  have j: "map_option peer (rooms (handleJoinRoom ?s' c (Some (JStr code))) code) = Some (Some c)" for c
    using r by (simp add: handleJoinRoom_free)
  from r t j s0 \<open>host rm \<noteq> ws\<close> show ?thesis by simp
qed

text \<open>
  C4 (as amended). A socket whose \<^verbatim>\<open>roomCode\<close> is a non-empty code of a room in the registry
  has both \<^verbatim>\<open>roomCode\<close> and \<^verbatim>\<open>role\<close> null after its departure, whichever branch of the
  leave logic ran.
\<close>

theorem departure_clears_affiliation:
  assumes "departure ws e"
    and "roomCode (conns s ws) = Some code" "code \<noteq> []" "rooms s code = Some rm"
  shows "\<exists>s'. apply_event s e = Some s' \<and> roomCode (conns s' ws) = None \<and> role (conns s' ws) = None"
proof -
  from assms(1) obtain s0 where s0: "apply_event s e = Some (handleLeaveRoom s0 ws)"
    "rooms s0 = rooms s" "\<And>c. roomCode (conns s0 c) = roomCode (conns s c)"
    using departure_leave_state [of ws e s] by blast
  have "roomCode (conns s0 ws) = Some code" "rooms s0 code = Some rm"
    using assms s0 by simp_all
  then have "conns (handleLeaveRoom s0 ws) = (conns s0)(ws := (conns s0 ws)\<lparr>roomCode := None, role := None\<rparr>)"
    using \<open>code \<noteq> []\<close> by (simp add: handleLeaveRoom_conns)
  with s0 show ?thesis by simp
qed

theorem departure_clears_affiliation_witness:
  "(\<exists>s'. apply_event paired (Message 1 leave_room []) = Some s' \<and>
         roomCode (conns s' 1) = None \<and> role (conns s' 1) = None)
   \<and> (\<exists>s'. apply_event paired (Close 0) = Some s' \<and>
         roomCode (conns s' 0) = None \<and> role (conns s' 0) = None)"
proof -
  have d1: "departure 1 (Message 1 leave_room [])" and d0: "departure 0 (Close 0)"
    by (simp_all add: leave_room_def type_tag_def)
  have r: "rooms paired ''ABC123'' = Some \<lparr>host = 0, peer = Some 1, users = {''u0'', ''u1''}\<rparr>"
    and c1: "roomCode (conns paired 1) = Some ''ABC123''"
    and c0: "roomCode (conns paired 0) = Some ''ABC123''"
    and ne: "''ABC123'' \<noteq> []"
    by (simp_all add: paired_def)
  from departure_clears_affiliation [OF d1 c1 ne r] departure_clears_affiliation [OF d0 c0 ne r]
  show ?thesis by (rule conjI)
qed

text \<open>
  The claim as written fails for a peer whose host has left: its \<^verbatim>\<open>roomCode\<close> is not null,
  and its own \<^verbatim>\<open>leave-room\<close> returns at \<^verbatim>\<open>if (!room) return\<close> with both fields as they were.
\<close>

theorem departure_clears_affiliation_counterexample:
  "valid_run init (paired_events @ [Message 0 leave_room [], Message 1 leave_room []]) \<and>
   map_option (affiliation 1) (run init (paired_events @ [Message 0 leave_room []]))
     = Some (Some ''ABC123'', Some Peer) \<and>
   map_option (affiliation 1)
     (run init (paired_events @ [Message 0 leave_room [], Message 1 leave_room []]))
     = Some (Some ''ABC123'', Some Peer)"
  by (simp add: scenario_simps)

section \<open>Relay\<close>

text \<open>What \<^verbatim>\<open>message.senderRole = ws.role\<close> does to the fields of the message.\<close>

lemma senderRole_fields:
  "map_of (AList.update ''senderRole'' v message) = (map_of message)(''senderRole'' \<mapsto> v)"
  by (rule update_conv')

lemma senderRole_added:
  "''senderRole'' \<notin> fst ` set message \<Longrightarrow>
   AList.update ''senderRole'' v message = message @ [(''senderRole'', v)]"
  by (induction message) auto

lemma forwardToPeer_room:
  assumes "roomCode (conns s ws) = Some code" "rooms s code = Some rm"
  shows "forwardToPeer s ws message =
           send_if_open s (if ws = host rm then peer rm else Some (host rm))
             (JObj (AList.update ''senderRole'' (role_json (role (conns s ws))) message))"
  using assms by (simp add: forwardToPeer_def)

lemma send_if_open_open:
  "readyState (conns s t) = OPEN \<Longrightarrow> send_if_open s (Some t) m = send s t m"
  by (simp add: send_if_open_def)

lemma send_if_open_dropped:
  "target = None \<or> (\<exists>t. target = Some t \<and> readyState (conns s t) \<noteq> OPEN)
   \<Longrightarrow> send_if_open s target m = s"
  by (auto simp: send_if_open_def)

text \<open>
  C6 (as amended). A relay message (\<^verbatim>\<open>offer\<close>, \<^verbatim>\<open>answer\<close>, \<^verbatim>\<open>ice-candidate\<close>) from a socket
  whose \<^verbatim>\<open>roomCode\<close> names a room goes to the room's peer when the sender is the host, and
  to the host when the sender is the peer. To an open target exactly one message is sent,
  to the target only: the inbound fields with \<^verbatim>\<open>senderRole\<close> set to the sender's role and
  every other field as it came. A message without that field gains exactly this one, at
  the end; in a message that came with the field, the value is replaced where it stands
  and no field is added. Rooms and sockets are unchanged. With no target, or a target that
  is not open, the state is unchanged: nothing is sent to anyone.
\<close>

theorem relay_to_other_member:
  assumes "map_of message ''type'' = Some (JStr t)"
    and "t = ''offer'' \<or> t = ''answer'' \<or> t = ''ice-candidate''"
    and "roomCode (conns s ws) = Some code" "rooms s code = Some rm"
    and "target = (if ws = host rm then peer rm else Some (host rm))"
    and "delivered = AList.update ''senderRole'' (role_json (role (conns s ws))) message"
  shows "(ws = host rm \<longrightarrow> target = peer rm) \<and> (peer rm = Some ws \<longrightarrow> target = Some (host rm))
       \<and> (\<forall>c. target = Some c \<and> readyState (conns s c) = OPEN \<longrightarrow>
            on_message s ws (Some (JObj message)) rnds
              = Some (s\<lparr>trace := trace s @ [Sent c (JObj delivered)]\<rparr>))
       \<and> (target = None \<or> (\<exists>c. target = Some c \<and> readyState (conns s c) \<noteq> OPEN) \<longrightarrow>
            on_message s ws (Some (JObj message)) rnds = Some s)
       \<and> map_of delivered = (map_of message)(''senderRole'' \<mapsto> role_json (role (conns s ws)))
       \<and> (''senderRole'' \<notin> fst ` set message \<longrightarrow>
            delivered = message @ [(''senderRole'', role_json (role (conns s ws)))])
       \<and> (''senderRole'' \<in> fst ` set message \<longrightarrow> map fst delivered = map fst message)"
proof -
  have fw: "on_message s ws (Some (JObj message)) rnds = Some (send_if_open s target (JObj delivered))"
    using assms by (simp add: on_message_relay forwardToPeer_room)
  have 1: "(ws = host rm \<longrightarrow> target = peer rm) \<and> (peer rm = Some ws \<longrightarrow> target = Some (host rm))"
    using assms(5) by auto
  have 2: "\<forall>c. target = Some c \<and> readyState (conns s c) = OPEN \<longrightarrow>
            on_message s ws (Some (JObj message)) rnds
              = Some (s\<lparr>trace := trace s @ [Sent c (JObj delivered)]\<rparr>)"
    using fw by (auto simp: send_if_open_open send_def)
  have 3: "target = None \<or> (\<exists>c. target = Some c \<and> readyState (conns s c) \<noteq> OPEN) \<longrightarrow>
            on_message s ws (Some (JObj message)) rnds = Some s"
    using fw by (auto simp: send_if_open_dropped)
  have 4: "map_of delivered = (map_of message)(''senderRole'' \<mapsto> role_json (role (conns s ws)))"
    using assms(6) by (simp add: senderRole_fields)
  have 5: "''senderRole'' \<notin> fst ` set message \<longrightarrow>
            delivered = message @ [(''senderRole'', role_json (role (conns s ws)))]"
    using assms(6) by (simp add: senderRole_added)
  have 6: "''senderRole'' \<in> fst ` set message \<longrightarrow> map fst delivered = map fst message"
    using assms(6) by (simp add: update_keys)
  from 1 2 3 4 5 6 show ?thesis by blast
qed

text \<open>
  In the sample room the host's offer reaches the peer as
  \<^verbatim>\<open>{type: 'offer', sdp: 'v=0', senderRole: 'host'}\<close>, and the peer's goes to the host; a
  peer's offer that came with \<^verbatim>\<open>senderRole: 'host'\<close> is delivered with \<^verbatim>\<open>senderRole: 'peer'\<close>
  in the same place.
\<close>

theorem relay_to_other_member_witness:
  "on_message paired 0 (Some (JObj offer)) []
     = Some (paired\<lparr>trace := trace paired @
         [Sent 1 (JObj [(''type'', JStr ''offer''), (''sdp'', JStr ''v=0''), (''senderRole'', JStr ''host'')])]\<rparr>)
   \<and> on_message paired 1 (Some (JObj offer)) []
     = Some (paired\<lparr>trace := trace paired @
         [Sent 0 (JObj [(''type'', JStr ''offer''), (''sdp'', JStr ''v=0''), (''senderRole'', JStr ''peer'')])]\<rparr>)
   \<and> on_message paired 1 (Some (JObj spoofed_offer)) []
     = Some (paired\<lparr>trace := trace paired @
         [Sent 0 (JObj [(''type'', JStr ''offer''), (''senderRole'', JStr ''peer''), (''sdp'', JStr ''v=0'')])]\<rparr>)
   \<and> on_message hosted 0 (Some (JObj offer)) [] = Some hosted"
proof -
  have tys: "map_of spoofed_offer ''type'' = Some (JStr ''offer'')"
    by (simp add: spoofed_offer_def)
  have ty: "map_of offer ''type'' = Some (JStr ''offer'')"
    and kind: "''offer'' = ''offer'' \<or> ''offer'' = ''answer'' \<or> ''offer'' = ''ice-candidate''"
    by (simp_all add: offer_def)
  have p: "rooms paired ''ABC123'' = Some \<lparr>host = 0, peer = Some 1, users = {''u0'', ''u1''}\<rparr>"
    "roomCode (conns paired 0) = Some ''ABC123''" "roomCode (conns paired 1) = Some ''ABC123''"
    by (simp_all add: paired_def)
  have h: "rooms hosted ''ABC123'' = Some \<lparr>host = 0, peer = None, users = {''u0''}\<rparr>"
    "roomCode (conns hosted 0) = Some ''ABC123''"
    by (simp_all add: hosted_def)
  have a: "on_message paired 0 (Some (JObj offer)) []
     = Some (paired\<lparr>trace := trace paired @
         [Sent 1 (JObj [(''type'', JStr ''offer''), (''sdp'', JStr ''v=0''), (''senderRole'', JStr ''host'')])]\<rparr>)"
    using relay_to_other_member [OF ty kind p(2) p(1) refl refl, of "[]"]
    by (simp add: paired_def offer_def)
  have b: "on_message paired 1 (Some (JObj offer)) []
     = Some (paired\<lparr>trace := trace paired @
         [Sent 0 (JObj [(''type'', JStr ''offer''), (''sdp'', JStr ''v=0''), (''senderRole'', JStr ''peer'')])]\<rparr>)"
    using relay_to_other_member [OF ty kind p(3) p(1) refl refl, of "[]"]
    by (simp add: paired_def offer_def)
  have c: "on_message hosted 0 (Some (JObj offer)) [] = Some hosted"
    using relay_to_other_member [OF ty kind h(2) h(1) refl refl, of "[]"]
    by simp
  have d: "on_message paired 1 (Some (JObj spoofed_offer)) []
     = Some (paired\<lparr>trace := trace paired @
         [Sent 0 (JObj [(''type'', JStr ''offer''), (''senderRole'', JStr ''peer''), (''sdp'', JStr ''v=0'')])]\<rparr>)"
    using relay_to_other_member [OF tys kind p(3) p(1) refl refl, of "[]"]
    by (simp add: paired_def spoofed_offer_def)
  from a b c d show ?thesis by blast
qed

text \<open>
  The claim as written fails: the delivered message is not always the inbound one with a
  field added. The peer's offer below arrives with three fields and is delivered with the
  same three; the value of \<^verbatim>\<open>senderRole\<close> that the sender wrote is gone.
\<close>

theorem relay_to_other_member_counterexample:
  "valid_run init (paired_events @ [Message 1 (Some (JObj spoofed_offer)) []]) \<and>
   map_option (received 0) (run init (paired_events @ [Message 1 (Some (JObj spoofed_offer)) []]))
     = Some [room_created ''ABC123'', peer_joined,
             JObj [(''type'', JStr ''offer''), (''senderRole'', JStr ''peer''), (''sdp'', JStr ''v=0'')]] \<and>
   length [(''type'', JStr ''offer''), (''senderRole'', JStr ''peer''), (''sdp'', JStr ''v=0'')]
     = length spoofed_offer \<and>
   map_of spoofed_offer ''senderRole'' = Some (JStr ''host'')"
  by (simp add: scenario_simps spoofed_offer_def)







section \<open>Creating rooms\<close>

lemma handleCreateRoom_loop_Some:
  assumes "handleCreateRoom_loop rs rnds = Some code"
  shows "rs code = None \<and>
         (\<exists>skipped rnd rest. rnds = skipped @ rnd # rest \<and> code = generateRoomCode rnd \<and>
            (\<forall>r \<in> set skipped. rs (generateRoomCode r) \<noteq> None))"
  using assms
proof (induction rnds)
  case Nil
  then show ?case by simp
next
  case (Cons rnd rnds)
  show ?case
  proof (cases "rs (generateRoomCode rnd) = None")
    case True
    with Cons.prems have "code = generateRoomCode rnd" by simp
    with True have "rs code = None \<and> rnd # rnds = [] @ rnd # rnds \<and> code = generateRoomCode rnd \<and>
        (\<forall>r \<in> set []. rs (generateRoomCode r) \<noteq> None)" by simp
    then show ?thesis by blast
  next
    case False
    with Cons.prems have "handleCreateRoom_loop rs rnds = Some code" by simp
    with Cons.IH obtain skipped r' rest where
      *: "rs code = None" "rnds = skipped @ r' # rest" "code = generateRoomCode r'"
         "\<forall>r \<in> set skipped. rs (generateRoomCode r) \<noteq> None"
      by blast
    with False have "rnd # rnds = (rnd # skipped) @ r' # rest \<and> code = generateRoomCode r' \<and>
        (\<forall>r \<in> set (rnd # skipped). rs (generateRoomCode r) \<noteq> None)" by simp
    with *(1) show ?thesis by blast
  qed
qed

lemma handleCreateRoom_loop_ends:
  "\<exists>rnd \<in> set rnds. rs (generateRoomCode rnd) = None
   \<Longrightarrow> \<exists>code. handleCreateRoom_loop rs rnds = Some code"
  by (induction rnds) auto

lemma handleCreateRoom_Some:
  assumes "handleCreateRoom s ws rnds = Some s'"
  shows "\<exists>code. handleCreateRoom_loop (rooms s) rnds = Some code \<and> rooms s code = None \<and>
           rooms s' = (rooms s)(code \<mapsto> \<lparr>host = ws, peer = None, users = {ws_id (conns s ws)}\<rparr>) \<and>
           conns s' = (conns s)(ws := (conns s ws)\<lparr>roomCode := Some code, role := Some Host\<rparr>) \<and>
           trace s' = trace s @ [Sent ws (room_created code)]"
proof -
  from assms obtain code where c: "handleCreateRoom_loop (rooms s) rnds = Some code"
    by (auto simp: handleCreateRoom_def split: option.splits)
  then have "rooms s code = None" using handleCreateRoom_loop_Some by blast
  with assms c show ?thesis by (auto simp: handleCreateRoom_def)
qed

text \<open>The rooms after a join: the same codes, each with the host it had.\<close>

lemma handleJoinRoom_rooms:
  "rooms s k = Some rm \<Longrightarrow>
   \<exists>rm'. rooms (handleJoinRoom s ws rc) k = Some rm' \<and> host rm' = host rm"
  by (cases "(s, ws, rc)" rule: handleJoinRoom.cases) (auto split: option.splits)

lemma handleJoinRoom_dom: "dom (rooms (handleJoinRoom s ws rc)) = dom (rooms s)"
  by (cases "(s, ws, rc)" rule: handleJoinRoom.cases) (auto split: option.splits if_splits)

lemma room_request_cases:
  assumes "room_request e \<noteq> None"
  obtains ws parsed rnds where "e = Message ws parsed rnds" "type_tag parsed = Some ''create-room''"
  | ws message rnds where "e = Message ws (Some (JObj message)) rnds"
      "map_of message ''type'' = Some (JStr ''join-room'')"
proof (cases e)
  case (Message ws parsed rnds)
  with assms have "type_tag parsed = Some ''create-room'' \<or> type_tag parsed = Some ''join-room''"
    by (simp split: if_splits)
  then show thesis
  proof
    assume "type_tag parsed = Some ''create-room''"
    with Message show thesis by (rule that(1))
  next
    assume "type_tag parsed = Some ''join-room''"
    then obtain message where "parsed = Some (JObj message)"
      "map_of message ''type'' = Some (JStr ''join-room'')"
      using type_tag_SomeD by blast
    with Message show thesis using that(2) by blast
  qed
qed (use assms in simp_all)

lemma room_request_step:
  assumes "room_request e \<noteq> None" "apply_event s e = Some s'" "finite (dom (rooms s))"
  shows "finite (dom (rooms s')) \<and>
         card (dom (rooms s')) = card (dom (rooms s)) + (if is_create e then 1 else 0) \<and>
         (\<forall>k rm. rooms s k = Some rm \<longrightarrow> (\<exists>rm'. rooms s' k = Some rm' \<and> host rm' = host rm))"
  using assms(1)
proof (cases rule: room_request_cases)
  case (1 ws parsed rnds)
  with assms(2) have "handleCreateRoom s ws rnds = Some s'"
    by (simp add: on_message_create)
  then obtain code where c: "rooms s code = None"
    "rooms s' = (rooms s)(code \<mapsto> \<lparr>host = ws, peer = None, users = {ws_id (conns s ws)}\<rparr>)"
    using handleCreateRoom_Some by blast
  from c(1) have "code \<notin> dom (rooms s)" by (simp add: domIff)
  with c assms(3) 1 show ?thesis by auto
next
  case (2 ws message rnds)
  with assms(2) have s': "s' = handleJoinRoom s ws (map_of message ''roomCode'')"
    by (simp add: on_message_join)
  have "\<not> is_create e" using 2 by (simp add: type_tag_def)
  with s' assms(3) show ?thesis
    by (simp add: handleJoinRoom_dom handleJoinRoom_rooms)
qed

lemma room_requests_run:
  assumes "run s es = Some s'" "\<forall>e \<in> set es. room_request e \<noteq> None" "finite (dom (rooms s))"
  shows "finite (dom (rooms s')) \<and>
         card (dom (rooms s')) = card (dom (rooms s)) + length (filter is_create es) \<and>
         (\<forall>k rm. rooms s k = Some rm \<longrightarrow> (\<exists>rm'. rooms s' k = Some rm' \<and> host rm' = host rm))"
  using assms
proof (induction es arbitrary: s)
  case Nil
  then show ?case by simp
next
  case (Cons e es)
  from Cons.prems(1) obtain s1 where s1: "apply_event s e = Some s1" "run s1 es = Some s'"
    by (auto split: option.splits)
  from Cons.prems(2) have e: "room_request e \<noteq> None" and es: "\<forall>e \<in> set es. room_request e \<noteq> None"
    by simp_all
  from room_request_step [OF e s1(1) Cons.prems(3)]
  have st: "finite (dom (rooms s1))"
    "card (dom (rooms s1)) = card (dom (rooms s)) + (if is_create e then 1 else 0)"
    "\<And>k rm. rooms s k = Some rm \<Longrightarrow> \<exists>rm'. rooms s1 k = Some rm' \<and> host rm' = host rm"
    by blast+
  from Cons.IH [OF s1(2) es st(1)]
  have ih: "finite (dom (rooms s'))"
    "card (dom (rooms s')) = card (dom (rooms s1)) + length (filter is_create es)"
    "\<And>k rm. rooms s1 k = Some rm \<Longrightarrow> \<exists>rm'. rooms s' k = Some rm' \<and> host rm' = host rm"
    by blast+
  have "\<exists>rm'. rooms s' k = Some rm' \<and> host rm' = host rm" if "rooms s k = Some rm" for k rm
  proof -
    from st(3) [OF that] obtain rm1 where "rooms s1 k = Some rm1" "host rm1 = host rm" by blast
    with ih(3) [of k rm1] show ?thesis by auto
  qed
  with ih(1,2) st(2) show ?case by simp
qed

text \<open>
  C8. \<^verbatim>\<open>create-room\<close> draws codes until one is not a key of the registry and inserts the
  new room under that code: the codes drawn before it were all taken, the chosen one was
  free, and every room that was in the registry stays. The loop ends as soon as a drawn
  code is free. So along any sequence of create and join requests no room is ever
  replaced by another: every room stays under its code with its host, and the number of
  rooms grows by exactly one with each create.
\<close>

theorem create_room_fresh_code:
  "(handleCreateRoom s ws rnds = Some s' \<longrightarrow>
      (\<exists>code skipped rnd rest.
         rnds = skipped @ rnd # rest \<and> code = generateRoomCode rnd \<and>
         (\<forall>r \<in> set skipped. rooms s (generateRoomCode r) \<noteq> None) \<and>
         rooms s code = None \<and>
         rooms s' = (rooms s)(code \<mapsto> \<lparr>host = ws, peer = None, users = {ws_id (conns s ws)}\<rparr>)))
   \<and> ((\<exists>rnd \<in> set rnds. rooms s (generateRoomCode rnd) = None) \<longrightarrow>
        (\<exists>s'. handleCreateRoom s ws rnds = Some s'))
   \<and> (run s es = Some t \<and> (\<forall>e \<in> set es. room_request e \<noteq> None) \<and> finite (dom (rooms s)) \<longrightarrow>
        card (dom (rooms t)) = card (dom (rooms s)) + length (filter is_create es) \<and>
        (\<forall>k rm. rooms s k = Some rm \<longrightarrow> (\<exists>rm'. rooms t k = Some rm' \<and> host rm' = host rm)))"
proof (intro conjI impI)
  assume a: "handleCreateRoom s ws rnds = Some s'"
  then obtain code where c: "handleCreateRoom_loop (rooms s) rnds = Some code"
    "rooms s' = (rooms s)(code \<mapsto> \<lparr>host = ws, peer = None, users = {ws_id (conns s ws)}\<rparr>)"
    using handleCreateRoom_Some by blast
  from handleCreateRoom_loop_Some [OF c(1)] c(2)
  show "\<exists>code skipped rnd rest.
         rnds = skipped @ rnd # rest \<and> code = generateRoomCode rnd \<and>
         (\<forall>r \<in> set skipped. rooms s (generateRoomCode r) \<noteq> None) \<and>
         rooms s code = None \<and>
         rooms s' = (rooms s)(code \<mapsto> \<lparr>host = ws, peer = None, users = {ws_id (conns s ws)}\<rparr>)"
    by blast
next
  assume "\<exists>rnd \<in> set rnds. rooms s (generateRoomCode rnd) = None"
  then obtain code where "handleCreateRoom_loop (rooms s) rnds = Some code"
    using handleCreateRoom_loop_ends by blast
  then show "\<exists>s'. handleCreateRoom s ws rnds = Some s'"
    by (simp add: handleCreateRoom_def)
next
  assume a: "run s es = Some t \<and> (\<forall>e \<in> set es. room_request e \<noteq> None) \<and> finite (dom (rooms s))"
  then have "run s es = Some t" "\<forall>e \<in> set es. room_request e \<noteq> None" "finite (dom (rooms s))"
    by simp_all
  from room_requests_run [OF this] 
  show "card (dom (rooms t)) = card (dom (rooms s)) + length (filter is_create es)" 
    and "\<forall>k rm. rooms s k = Some rm \<longrightarrow> (\<exists>rm'. rooms t k = Some rm' \<and> host rm' = host rm)"
    by blast+
qed

text \<open>
  Socket 1 creates a room while the room ABC123 exists and the generator first returns
  that code again: the second draw is taken, and there are two rooms afterwards.
\<close>

theorem create_room_fresh_code_witness:
  "(\<exists>s'. handleCreateRoom hosted 1 [''0.abc123xyz'', ''0.def456uvw''] = Some s' \<and>
         rooms s' = (rooms hosted)(''DEF456'' \<mapsto> \<lparr>host = 1, peer = None, users = {''u1''}\<rparr>))
   \<and> (\<exists>t. run hosted [Message 1 create_room [''0.abc123xyz'', ''0.def456uvw'']] = Some t \<and>
         card (dom (rooms t)) = 2 \<and> map_option host (rooms t ''ABC123'') = Some 0)"
proof -
  let ?rnds = "[''0.abc123xyz'', ''0.def456uvw'']"
  let ?es = "[Message 1 create_room ?rnds]"
  have free: "\<exists>rnd \<in> set ?rnds. rooms hosted (generateRoomCode rnd) = None"
    by (simp add: hosted_def)
  have "\<exists>s'. handleCreateRoom hosted 1 ?rnds = Some s'"
    by (rule create_room_fresh_code [THEN conjunct2, THEN conjunct1, THEN mp, OF free])
  then obtain s' where s': "handleCreateRoom hosted 1 ?rnds = Some s'" ..
  have "\<exists>code skipped rnd rest.
         ?rnds = skipped @ rnd # rest \<and> code = generateRoomCode rnd \<and>
         (\<forall>r \<in> set skipped. rooms hosted (generateRoomCode r) \<noteq> None) \<and>
         rooms hosted code = None \<and>
         rooms s' = (rooms hosted)(code \<mapsto> \<lparr>host = 1, peer = None, users = {ws_id (conns hosted 1)}\<rparr>)"
    by (rule create_room_fresh_code [THEN conjunct1, THEN mp, OF s'])
  then obtain code skipped rnd rest where
    c: "?rnds = skipped @ rnd # rest" "code = generateRoomCode rnd"
       "rooms hosted code = None"
       "rooms s' = (rooms hosted)(code \<mapsto> \<lparr>host = 1, peer = None, users = {ws_id (conns hosted 1)}\<rparr>)"
    by (elim exE conjE)
  have "rnd \<in> set (skipped @ rnd # rest)" by simp
  with c(1) have "rnd \<in> set ?rnds" by simp
  then have "rnd = ''0.abc123xyz'' \<or> rnd = ''0.def456uvw''" by simp
  moreover have "rooms hosted ''ABC123'' \<noteq> None" by (simp add: hosted_def)
  ultimately have "code = ''DEF456''" using c(2,3) by auto
  with c(4) have r: "rooms s' = (rooms hosted)(''DEF456'' \<mapsto> \<lparr>host = 1, peer = None, users = {''u1''}\<rparr>)"
    by (simp add: hosted_def)
  have run: "run hosted ?es = Some s'"
    using s' by (simp add: on_message_create create_room_def type_tag_def)
  have req: "\<forall>e \<in> set ?es. room_request e \<noteq> None"
    by (simp add: create_room_def type_tag_def)
  have fin: "finite (dom (rooms hosted))" and one: "card (dom (rooms hosted)) = 1"
    and h: "rooms hosted ''ABC123'' = Some \<lparr>host = 0, peer = None, users = {''u0''}\<rparr>"
    by (simp_all add: hosted_def)
  from run req fin have pre: "run hosted ?es = Some s' \<and> (\<forall>e \<in> set ?es. room_request e \<noteq> None) \<and>
      finite (dom (rooms hosted))" by simp
  have seq: "card (dom (rooms s')) = card (dom (rooms hosted)) + length (filter is_create ?es) \<and>
        (\<forall>k rm. rooms hosted k = Some rm \<longrightarrow> (\<exists>rm'. rooms s' k = Some rm' \<and> host rm' = host rm))"
    by (rule create_room_fresh_code [THEN conjunct2, THEN conjunct2, THEN mp, OF pre])
  then have "card (dom (rooms s')) = 2"
    using one by (simp add: create_room_def type_tag_def)
  moreover from seq h obtain rm' where "rooms s' ''ABC123'' = Some rm'" "host rm' = 0"
    by fastforce
  then have "map_option host (rooms s' ''ABC123'') = Some 0" by simp
  ultimately show ?thesis using s' r run by blast
qed

section \<open>Case of the codes\<close>

lemma toUpperCase_char_idem: "toUpperCase_char (toUpperCase_char c) = toUpperCase_char c"
  by (auto simp: toUpperCase_char_def less_eq_char_def)

lemma toUpperCase_idem: "toUpperCase (toUpperCase str) = toUpperCase str"
  by (simp add: toUpperCase_def toUpperCase_char_idem)

lemma generateRoomCode_canonical: "toUpperCase (generateRoomCode rnd) = generateRoomCode rnd"
  by (simp add: generateRoomCode_def toUpperCase_idem)

section \<open>The effect of one event on the registry\<close>

lemma forwardToPeer_fields [simp]:
  "rooms (forwardToPeer s ws message) = rooms s"
  "conns (forwardToPeer s ws message) = conns s"
  by (simp_all add: forwardToPeer_def split: option.splits)

lemma handleJoinRoom_effect:
  "(rooms (handleJoinRoom s ws rc) = rooms s \<and> conns (handleJoinRoom s ws rc) = conns s) \<or>
   (\<exists>code rm. rooms s code = Some rm \<and> peer rm = None \<and>
      rooms (handleJoinRoom s ws rc) =
        (rooms s)(code \<mapsto> rm\<lparr>peer := Some ws, users := insert (ws_id (conns s ws)) (users rm)\<rparr>) \<and>
      conns (handleJoinRoom s ws rc) =
        (conns s)(ws := (conns s ws)\<lparr>roomCode := Some code, role := Some Peer\<rparr>))"
  by (cases "(s, ws, rc)" rule: handleJoinRoom.cases) (auto split: option.splits)

lemma handleLeaveRoom_rooms:
  assumes "roomCode (conns s ws) = Some code" "code \<noteq> []" "rooms s code = Some rm"
  shows "rooms (handleLeaveRoom s ws) = (rooms s)(code := None) \<or>
         (ws \<noteq> host rm \<and>
          rooms (handleLeaveRoom s ws) =
            (rooms s)(code \<mapsto> rm\<lparr>users := users rm - {ws_id (conns s ws)},
                                    peer := (if peer rm = Some ws then None else peer rm)\<rparr>))"
  using assms by (simp add: handleLeaveRoom_def Let_def)

lemma handleLeaveRoom_effect:
  "(rooms (handleLeaveRoom s ws) = rooms s \<and> conns (handleLeaveRoom s ws) = conns s) \<or>
   (\<exists>code rm. rooms s code = Some rm \<and>
      conns (handleLeaveRoom s ws) = (conns s)(ws := (conns s ws)\<lparr>roomCode := None, role := None\<rparr>) \<and>
      (rooms (handleLeaveRoom s ws) = (rooms s)(code := None) \<or>
       (ws \<noteq> host rm \<and>
        rooms (handleLeaveRoom s ws) =
          (rooms s)(code \<mapsto> rm\<lparr>users := users rm - {ws_id (conns s ws)},
                                  peer := (if peer rm = Some ws then None else peer rm)\<rparr>))))"
proof (cases "\<exists>code rm. roomCode (conns s ws) = Some code \<and> code \<noteq> [] \<and> rooms s code = Some rm")
  case True
  then obtain code rm where a: "roomCode (conns s ws) = Some code" "code \<noteq> []" "rooms s code = Some rm"
    by blast
  from handleLeaveRoom_rooms [OF a] handleLeaveRoom_conns [OF a] a(3) show ?thesis by blast
next
  case False
  then have "handleLeaveRoom s ws = s"
    by (intro handleLeaveRoom_noop) (cases "roomCode (conns s ws)"; cases "rooms s (the (roomCode (conns s ws)))"; auto)
  then show ?thesis by simp
qed

lemma same_sockets_conns:
  "conns s' = conns s \<Longrightarrow> same_sockets s s'"
  by (simp add: same_sockets_def connected_def)

lemma same_sockets_affiliation:
  "conns s' = (conns s)(ws := (conns s ws)\<lparr>roomCode := code, role := r\<rparr>) \<Longrightarrow> same_sockets s s'"
  by (simp add: same_sockets_def connected_def)

lemma on_message_effect:
  assumes "on_message s ws parsed rnds = Some s'"
  shows "(rooms s' = rooms s \<and> same_sockets s s')
       \<or> (\<exists>code. room_request (Message ws parsed rnds) = Some ws \<and> rooms s code = None \<and>
              toUpperCase code = code \<and>
              rooms s' = (rooms s)(code \<mapsto> \<lparr>host = ws, peer = None, users = {ws_id (conns s ws)}\<rparr>) \<and>
              same_sockets s s')
       \<or> (\<exists>code rm. room_request (Message ws parsed rnds) = Some ws \<and> rooms s code = Some rm \<and>
              peer rm = None \<and>
              rooms s' = (rooms s)(code \<mapsto> rm\<lparr>peer := Some ws,
                                                users := insert (ws_id (conns s ws)) (users rm)\<rparr>) \<and>
              same_sockets s s')
       \<or> (\<exists>code. rooms s' = (rooms s)(code := None) \<and> same_sockets s s')
       \<or> (\<exists>code rm. rooms s code = Some rm \<and> ws \<noteq> host rm \<and>
              rooms s' = (rooms s)(code \<mapsto> rm\<lparr>users := users rm - {ws_id (conns s ws)},
                                                peer := (if peer rm = Some ws then None else peer rm)\<rparr>) \<and>
              same_sockets s s')"
proof (cases "type_tag parsed")
  case None
  with assms(1) have "s' = s" by (simp add: on_message_untagged)
  then show ?thesis by (simp add: same_sockets_def)
next
  case (Some t)
  then obtain message where m: "parsed = Some (JObj message)" "map_of message ''type'' = Some (JStr t)"
    using type_tag_SomeD by blast
  consider "t = ''create-room''" | "t = ''join-room''"
    | "t = ''offer'' \<or> t = ''answer'' \<or> t = ''ice-candidate''" | "t = ''leave-room''"
    | "t \<notin> set known_types"
    by (auto simp: known_types_def)
  then show ?thesis
  proof cases
    case 1
    with Some assms(1) have "handleCreateRoom s ws rnds = Some s'"
      by (simp add: on_message_create)
    then obtain code where c: "handleCreateRoom_loop (rooms s) rnds = Some code"
      "rooms s code = None"
      "rooms s' = (rooms s)(code \<mapsto> \<lparr>host = ws, peer = None, users = {ws_id (conns s ws)}\<rparr>)"
      "conns s' = (conns s)(ws := (conns s ws)\<lparr>roomCode := Some code, role := Some Host\<rparr>)"
      using handleCreateRoom_Some by blast
    from handleCreateRoom_loop_Some [OF c(1)] have "toUpperCase code = code"
      by (auto simp: generateRoomCode_canonical)
    moreover from c(4) have "same_sockets s s'" by (rule same_sockets_affiliation)
    moreover have "room_request (Message ws parsed rnds) = Some ws" using Some 1 by simp
    ultimately show ?thesis using c(2,3) by blast
  next
    case 2
    with m assms(1) have s': "s' = handleJoinRoom s ws (map_of message ''roomCode'')"
      by (simp add: on_message_join)
    have rq: "room_request (Message ws parsed rnds) = Some ws" using Some 2 by simp
    from handleJoinRoom_effect [of s ws "map_of message ''roomCode''"] show ?thesis
    proof
      assume "rooms (handleJoinRoom s ws (map_of message ''roomCode'')) = rooms s \<and>
              conns (handleJoinRoom s ws (map_of message ''roomCode'')) = conns s"
      with s' show ?thesis by (simp add: same_sockets_conns)
    next
      assume "\<exists>code rm. rooms s code = Some rm \<and> peer rm = None \<and>
        rooms (handleJoinRoom s ws (map_of message ''roomCode'')) =
          (rooms s)(code \<mapsto> rm\<lparr>peer := Some ws, users := insert (ws_id (conns s ws)) (users rm)\<rparr>) \<and>
        conns (handleJoinRoom s ws (map_of message ''roomCode'')) =
          (conns s)(ws := (conns s ws)\<lparr>roomCode := Some code, role := Some Peer\<rparr>)"
      then obtain code rm where j: "rooms s code = Some rm" "peer rm = None"
        "rooms s' = (rooms s)(code \<mapsto> rm\<lparr>peer := Some ws, users := insert (ws_id (conns s ws)) (users rm)\<rparr>)"
        "conns s' = (conns s)(ws := (conns s ws)\<lparr>roomCode := Some code, role := Some Peer\<rparr>)"
        using s' by blast
      from j(4) have "same_sockets s s'" by (rule same_sockets_affiliation)
      with rq j(1,2,3) show ?thesis by blast
    qed
  next
    case 3
    with m assms(1) have "s' = forwardToPeer s ws message"
      by (simp add: on_message_relay)
    then show ?thesis by (simp add: same_sockets_conns)
  next
    case 4
    with Some assms(1) have s': "s' = handleLeaveRoom s ws"
      by (simp add: on_message_leave)
    from handleLeaveRoom_effect [of s ws] show ?thesis
    proof
      assume "rooms (handleLeaveRoom s ws) = rooms s \<and> conns (handleLeaveRoom s ws) = conns s"
      with s' show ?thesis by (simp add: same_sockets_conns)
    next
      assume "\<exists>code rm. rooms s code = Some rm \<and>
        conns (handleLeaveRoom s ws) = (conns s)(ws := (conns s ws)\<lparr>roomCode := None, role := None\<rparr>) \<and>
        (rooms (handleLeaveRoom s ws) = (rooms s)(code := None) \<or>
         (ws \<noteq> host rm \<and>
          rooms (handleLeaveRoom s ws) =
            (rooms s)(code \<mapsto> rm\<lparr>users := users rm - {ws_id (conns s ws)},
                                    peer := (if peer rm = Some ws then None else peer rm)\<rparr>)))"
      then obtain code rm where l: "rooms s code = Some rm"
        "conns s' = (conns s)(ws := (conns s ws)\<lparr>roomCode := None, role := None\<rparr>)"
        "rooms s' = (rooms s)(code := None) \<or>
         (ws \<noteq> host rm \<and>
          rooms s' = (rooms s)(code \<mapsto> rm\<lparr>users := users rm - {ws_id (conns s ws)},
                                    peer := (if peer rm = Some ws then None else peer rm)\<rparr>))"
        using s' by blast
      from l(2) have "same_sockets s s'" by (rule same_sockets_affiliation)
      with l(1,3) show ?thesis by blast
    qed
  next
    case 5
    with Some assms(1) have "s' = s" by (simp add: on_message_unknown_tag)
    then show ?thesis by (simp add: same_sockets_def)
  qed
qed

lemma step_effect [consumes 2, case_names connection quiet created joined deleted left]:
  assumes "apply_event s e = Some s'" "enabled s e"
  obtains
    c u where "e = Connection c u" "\<not> connected s c"
      "\<forall>c'. connected s c' \<longrightarrow> ws_id (conns s c') \<noteq> u"
      "rooms s' = rooms s" "ws_id (conns s' c) = u" "connected s' c"
      "\<forall>c'. c' \<noteq> c \<longrightarrow> conns s' c' = conns s c'"
  | "rooms s' = rooms s" "same_sockets s s'"
  | ws code where "room_request e = Some ws" "connected s ws" "rooms s code = None"
      "toUpperCase code = code"
      "rooms s' = (rooms s)(code \<mapsto> \<lparr>host = ws, peer = None, users = {ws_id (conns s ws)}\<rparr>)"
      "same_sockets s s'"
  | ws code rm where "room_request e = Some ws" "connected s ws" "rooms s code = Some rm"
      "peer rm = None"
      "rooms s' = (rooms s)(code \<mapsto> rm\<lparr>peer := Some ws,
                                        users := insert (ws_id (conns s ws)) (users rm)\<rparr>)"
      "same_sockets s s'"
  | code where "rooms s' = (rooms s)(code := None)" "same_sockets s s'"
  | ws code rm where "connected s ws" "rooms s code = Some rm" "ws \<noteq> host rm"
      "rooms s' = (rooms s)(code \<mapsto> rm\<lparr>users := users rm - {ws_id (conns s ws)},
                                        peer := (if peer rm = Some ws then None else peer rm)\<rparr>)"
      "same_sockets s s'"
proof (cases e)
  case (Connection c u)
  with assms have "\<not> connected s c" "\<forall>c'. connected s c' \<longrightarrow> ws_id (conns s c') \<noteq> u"
    "rooms s' = rooms s" "ws_id (conns s' c) = u" "connected s' c"
    "\<forall>c'. c' \<noteq> c \<longrightarrow> conns s' c' = conns s c'"
    by (auto simp: connected_def)
  with Connection show thesis by (rule that(1))
next
  case (Message ws parsed rnds)
  with assms have om: "on_message s ws parsed rnds = Some s'" and cn: "connected s ws"
    by (auto simp: connected_def)
  from on_message_effect [OF om] show thesis
    using that(2-6) cn unfolding Message by blast
next
  case (Closing ws)
  with assms have "rooms s' = rooms s" "same_sockets s s'"
    by (auto simp: same_sockets_def connected_def split: if_splits)
  then show thesis by (rule that(2))
next
  case (Close ws)
  let ?s0 = "set_readyState s ws CLOSED"
  from Close assms have s': "s' = handleLeaveRoom ?s0 ws" and cn: "connected s ws"
    by (auto simp: on_close_def connected_def)
  have ss0: "same_sockets s ?s0" using cn by (simp add: same_sockets_def connected_def)
  have id0: "ws_id (conns ?s0 ws) = ws_id (conns s ws)" by simp
  from handleLeaveRoom_effect [of ?s0 ws] show thesis
  proof
    assume "rooms (handleLeaveRoom ?s0 ws) = rooms ?s0 \<and> conns (handleLeaveRoom ?s0 ws) = conns ?s0"
    with s' cn have "rooms s' = rooms s" "same_sockets s s'"
      by (simp_all add: same_sockets_def connected_def)
    then show thesis by (rule that(2))
  next
    assume "\<exists>code rm. rooms ?s0 code = Some rm \<and>
      conns (handleLeaveRoom ?s0 ws) = (conns ?s0)(ws := (conns ?s0 ws)\<lparr>roomCode := None, role := None\<rparr>) \<and>
      (rooms (handleLeaveRoom ?s0 ws) = (rooms ?s0)(code := None) \<or>
       (ws \<noteq> host rm \<and>
        rooms (handleLeaveRoom ?s0 ws) =
          (rooms ?s0)(code \<mapsto> rm\<lparr>users := users rm - {ws_id (conns ?s0 ws)},
                                  peer := (if peer rm = Some ws then None else peer rm)\<rparr>)))"
    then obtain code rm where l: "rooms s code = Some rm"
      "conns s' = (conns ?s0)(ws := (conns ?s0 ws)\<lparr>roomCode := None, role := None\<rparr>)"
      "rooms s' = (rooms s)(code := None) \<or>
       (ws \<noteq> host rm \<and>
        rooms s' = (rooms s)(code \<mapsto> rm\<lparr>users := users rm - {ws_id (conns s ws)},
                                  peer := (if peer rm = Some ws then None else peer rm)\<rparr>))"
      using s' by auto
    from l(2) cn have ss: "same_sockets s s'" by (simp add: same_sockets_def connected_def)
    from l(3) show thesis
    proof
      assume "rooms s' = (rooms s)(code := None)"
      then show thesis using ss by (rule that(5))
    next
      assume "ws \<noteq> host rm \<and>
        rooms s' = (rooms s)(code \<mapsto> rm\<lparr>users := users rm - {ws_id (conns s ws)},
                                  peer := (if peer rm = Some ws then None else peer rm)\<rparr>)"
      with cn l(1) ss show thesis using that(6) by blast
    qed
  qed
qed

section \<open>The registry of a running server is well formed\<close>

lemma unique_ids_step:
  assumes "unique_ids s" "apply_event s e = Some s'" "enabled s e"
  shows "unique_ids s'"
  using assms(2,3)
proof (cases rule: step_effect)
  case (connection c u)
  show ?thesis
    unfolding unique_ids_def
  proof (intro allI impI)
    fix c1 c2
    assume a: "connected s' c1 \<and> connected s' c2 \<and> ws_id (conns s' c1) = ws_id (conns s' c2)"
    show "c1 = c2"
    proof (cases "c1 = c \<or> c2 = c")
      case True
      show ?thesis
      proof (rule ccontr)
        assume ne: "c1 \<noteq> c2"
        from True ne obtain d where d: "d \<noteq> c" "connected s' d" "ws_id (conns s' d) = u"
          using a connection(5) by metis
        with connection(7) have "connected s d" "ws_id (conns s d) = u"
          by (simp_all add: connected_def)
        with connection(3) show False by blast
      qed
    next
      case False
      with connection(7) a have "connected s c1 \<and> connected s c2 \<and> ws_id (conns s c1) = ws_id (conns s c2)"
        by (simp add: connected_def)
      with assms(1) show ?thesis unfolding unique_ids_def by blast
    qed
  qed
qed (use assms(1) in \<open>simp_all add: unique_ids_def same_sockets_def\<close>)

lemma members_connected_step:
  assumes "members_connected s" "apply_event s e = Some s'" "enabled s e"
  shows "members_connected s'"
  using assms(2,3)
proof (cases rule: step_effect)
  case (connection c u)
  have keep: "connected s' d" if "connected s d" for d
    using that connection(2,7) by (metis connected_def)
  have ids: "\<exists>d. connected s' d \<and> ws_id (conns s' d) = v" if "connected s d" "ws_id (conns s d) = v" for d v
    using that connection(2,7) by (metis connected_def)
  show ?thesis
    unfolding members_connected_def
  proof (intro allI impI)
    fix code rm
    assume "rooms s' code = Some rm"
    with connection(4) have "rooms s code = Some rm" by simp
    with assms(1) have h: "connected s (host rm)" and p: "\<forall>p. peer rm = Some p \<longrightarrow> connected s p"
      and u: "\<forall>v \<in> users rm. \<exists>d. connected s d \<and> ws_id (conns s d) = v"
      unfolding members_connected_def by blast+
    from u have "\<forall>v \<in> users rm. \<exists>d. connected s' d \<and> ws_id (conns s' d) = v"
      using ids by blast
    with h p keep
    show "connected s' (host rm) \<and> (\<forall>p. peer rm = Some p \<longrightarrow> connected s' p) \<and>
          (\<forall>u \<in> users rm. \<exists>c. connected s' c \<and> ws_id (conns s' c) = u)"
      by blast
  qed
next
  case quiet
  from quiet(2) have eq: "\<And>c. ws_id (conns s' c) = ws_id (conns s c)" "\<And>c. connected s' c = connected s c"
    by (simp_all add: same_sockets_def)
  from assms(1) show ?thesis
    by (simp add: members_connected_def eq quiet(1))
next
  case (created ws code)
  from created(6) have eq: "\<And>c. ws_id (conns s' c) = ws_id (conns s c)" "\<And>c. connected s' c = connected s c"
    by (simp_all add: same_sockets_def)
  from assms(1) created(2) show ?thesis
    by (auto simp: members_connected_def eq created(5))
next
  case (joined ws code rm)
  from joined(6) have eq: "\<And>c. ws_id (conns s' c) = ws_id (conns s c)" "\<And>c. connected s' c = connected s c"
    by (simp_all add: same_sockets_def)
  from assms(1) joined(2,3) show ?thesis
    by (auto simp: members_connected_def eq joined(5))
next
  case (deleted code)
  from deleted(2) have eq: "\<And>c. ws_id (conns s' c) = ws_id (conns s c)" "\<And>c. connected s' c = connected s c"
    by (simp_all add: same_sockets_def)
  from assms(1) show ?thesis
    by (auto simp: members_connected_def eq deleted(1))
next
  case (left ws code rm)
  from left(5) have eq: "\<And>c. ws_id (conns s' c) = ws_id (conns s c)" "\<And>c. connected s' c = connected s c"
    by (simp_all add: same_sockets_def)
  from assms(1) left(2) show ?thesis
    by (auto simp: members_connected_def eq left(4) split: if_splits)
qed

lemma members_recorded_step:
  assumes "members_recorded s" "members_connected s" "unique_ids s"
    and "apply_event s e = Some s'" "enabled s e"
  shows "members_recorded s'"
  using assms(4,5)
proof (cases rule: step_effect)
  case (connection c u)
  have same: "conns s' d = conns s d" if "connected s d" for d
    using that connection(2,7) by metis
  from assms(1,2) show ?thesis
    unfolding members_recorded_def members_connected_def connection(4)
    by (metis same)
next
  case quiet
  from quiet(2) have eq: "\<And>c. ws_id (conns s' c) = ws_id (conns s c)"
    by (simp add: same_sockets_def)
  from assms(1) show ?thesis
    by (simp add: members_recorded_def eq quiet(1))
next
  case (created ws code)
  from created(6) have eq: "\<And>c. ws_id (conns s' c) = ws_id (conns s c)"
    by (simp add: same_sockets_def)
  from assms(1) show ?thesis
    by (auto simp: members_recorded_def eq created(5))
next
  case (joined ws code rm)
  from joined(6) have eq: "\<And>c. ws_id (conns s' c) = ws_id (conns s c)"
    by (simp add: same_sockets_def)
  from assms(1) joined(3) show ?thesis
    by (auto simp: members_recorded_def eq joined(5))
next
  case (deleted code)
  from deleted(2) have eq: "\<And>c. ws_id (conns s' c) = ws_id (conns s c)"
    by (simp add: same_sockets_def)
  from assms(1) show ?thesis
    by (auto simp: members_recorded_def eq deleted(1))
next
  case (left ws code rm)
  from left(5) have eq: "\<And>c. ws_id (conns s' c) = ws_id (conns s c)"
    by (simp add: same_sockets_def)
  have other: "ws_id (conns s d) \<noteq> ws_id (conns s ws)" if "connected s d" "d \<noteq> ws" for d
    using that left(1) assms(3) unfolding unique_ids_def by blast
  from assms(2) left(2) have hc: "connected s (host rm)" and pc: "\<And>p. peer rm = Some p \<Longrightarrow> connected s p"
    unfolding members_connected_def by blast+
  from assms(1) left(2) have hr: "ws_id (conns s (host rm)) \<in> users rm"
    and pr: "\<And>p. peer rm = Some p \<Longrightarrow> ws_id (conns s p) \<in> users rm"
    unfolding members_recorded_def by blast+
  have h': "ws_id (conns s (host rm)) \<in> users rm - {ws_id (conns s ws)}"
    using hr other [OF hc] left(3) by auto
  have p': "ws_id (conns s p) \<in> users rm - {ws_id (conns s ws)}" if "peer rm = Some p" "p \<noteq> ws" for p
    using pr [OF that(1)] other [OF pc [OF that(1)] that(2)] by auto
  show ?thesis
    unfolding members_recorded_def
  proof (intro allI impI)
    fix k rm'
    assume r: "rooms s' k = Some rm'"
    show "ws_id (conns s' (host rm')) \<in> users rm' \<and>
          (\<forall>p. peer rm' = Some p \<longrightarrow> ws_id (conns s' p) \<in> users rm')"
    proof (cases "k = code")
      case True
      with r left(4) have "rm' = rm\<lparr>users := users rm - {ws_id (conns s ws)},
                                   peer := (if peer rm = Some ws then None else peer rm)\<rparr>"
        by simp
      with h' p' show ?thesis
        by (auto simp: eq)
    next
      case False
      with r left(4) have "rooms s k = Some rm'" by simp
      with assms(1) show ?thesis
        by (simp add: members_recorded_def eq)
    qed
  qed
qed

lemma well_formed_init: "well_formed init"
  by (simp add: well_formed_def unique_ids_def members_connected_def members_recorded_def
        init_def connected_def)

lemma well_formed_step:
  assumes "well_formed s" "apply_event s e = Some s'" "enabled s e"
  shows "well_formed s'"
  using assms unique_ids_step members_connected_step members_recorded_step
  unfolding well_formed_def by blast

lemma reachable_via_well_formed: "reachable_via ok s \<Longrightarrow> well_formed s"
  by (induction rule: reachable_via.induct) (auto intro: well_formed_init well_formed_step)

lemma reachable_well_formed: "reachable s \<Longrightarrow> well_formed s"
  unfolding reachable_def by (rule reachable_via_well_formed)

section \<open>Runs and reachable states\<close>

lemma reachable_via_admitted:
  "reachable_via ok s \<Longrightarrow> admitted ok s es \<Longrightarrow> run s es = Some s' \<Longrightarrow> reachable_via ok s'"
proof (induction es arbitrary: s)
  case Nil
  then show ?case by simp
next
  case (Cons e es)
  from Cons.prems(2) obtain s1 where s1: "enabled s e" "ok s e" "apply_event s e = Some s1"
    "admitted ok s1 es"
    by (auto split: option.splits)
  from Cons.prems(1) s1(1,2,3) have "reachable_via ok s1" by (rule reachable_step)
  moreover from Cons.prems(3) s1(3) have "run s1 es = Some s'" by simp
  ultimately show ?case using s1(4) Cons.IH by blast
qed

lemma valid_run_admitted: "valid_run s es \<Longrightarrow> admitted any_event s es"
  by (induction es arbitrary: s) (auto simp: any_event_def split: option.splits)

lemma reachable_run:
  "reachable s \<Longrightarrow> valid_run s es \<Longrightarrow> run s es = Some s' \<Longrightarrow> reachable s'"
  unfolding reachable_def using reachable_via_admitted valid_run_admitted by blast

lemma reachable_start: "reachable init"
  unfolding reachable_def by (rule reachable_init)

lemma valid_hosted: "valid_run init hosted_events"
  by (simp add: scenario_simps)

lemma reachable_hosted: "reachable hosted"
  using reachable_start valid_hosted run_hosted by (rule reachable_run)

lemma reachable_paired: "reachable paired"
  using reachable_start valid_paired run_paired by (rule reachable_run)

section \<open>Members of a room in a running server\<close>

lemma reachable_host_recorded:
  assumes "reachable s" "rooms s code = Some rm" "c \<noteq> host rm" "connected s c"
  shows "ws_id (conns s (host rm)) \<in> users rm" "ws_id (conns s (host rm)) \<noteq> ws_id (conns s c)"
proof -
  from assms(1) have wf: "well_formed s" by (rule reachable_well_formed)
  with assms(2) show "ws_id (conns s (host rm)) \<in> users rm"
    unfolding well_formed_def members_recorded_def by blast
  from wf assms(2) have "connected s (host rm)"
    unfolding well_formed_def members_connected_def by blast
  with wf assms(3,4) show "ws_id (conns s (host rm)) \<noteq> ws_id (conns s c)"
    unfolding well_formed_def unique_ids_def by blast
qed

lemma reachable_peer_recorded:
  assumes "reachable s" "rooms s code = Some rm" "peer rm = Some p" "c \<noteq> p" "connected s c"
  shows "ws_id (conns s p) \<in> users rm" "ws_id (conns s p) \<noteq> ws_id (conns s c)"
proof -
  from assms(1) have wf: "well_formed s" by (rule reachable_well_formed)
  with assms(2,3) show "ws_id (conns s p) \<in> users rm"
    unfolding well_formed_def members_recorded_def by blast
  from wf assms(2,3) have "connected s p"
    unfolding well_formed_def members_connected_def by blast
  with wf assms(4,5) show "ws_id (conns s p) \<noteq> ws_id (conns s c)"
    unfolding well_formed_def unique_ids_def by blast
qed

lemma reachable_member_connected:
  assumes "reachable s" "rooms s code = Some rm"
  shows "connected s (host rm)" "peer rm = Some p \<Longrightarrow> connected s p"
  using reachable_well_formed [OF assms(1)] assms(2)
  unfolding well_formed_def members_connected_def by blast+

text \<open>
  C1 (as amended). In a running server, when the host of a room departs (its
  \<^verbatim>\<open>leave-room\<close> or the close of its connection; its \<^verbatim>\<open>roomCode\<close> is the room's non-empty
  code) while another socket is attached as peer and is open, the room is removed from
  the registry and the peer is sent exactly two messages, both before the room is
  deleted: first \<^verbatim>\<open>peer-left\<close> carrying the peer's own role, then \<^verbatim>\<open>host-left\<close>. Nothing
  else is sent to anyone.
\<close>

theorem host_departure:
  assumes "reachable s" "departure ws e"
    and "roomCode (conns s ws) = Some code" "code \<noteq> []" "rooms s code = Some rm" "host rm = ws"
    and "peer rm = Some p" "p \<noteq> ws" "readyState (conns s p) = OPEN"
  shows "\<exists>s'. apply_event s e = Some s' \<and> rooms s' = (rooms s)(code := None) \<and>
          trace s' = trace s @ [Sent p (peer_left (role (conns s p))), Sent p host_left, Deleted code]"
proof -
  from assms(1,5,6) have "connected s ws" using reachable_member_connected(1) by blast
  with assms(1,5,7,8) have "ws_id (conns s p) \<in> users rm" "ws_id (conns s p) \<noteq> ws_id (conns s ws)"
    using reachable_peer_recorded [of s code rm p ws] by auto
  with assms(2-9) show ?thesis by (rule host_departure_local)
qed

theorem host_departure_witness:
  "reachable paired \<and> departure 0 (Close 0) \<and>
   (\<exists>s'. apply_event paired (Close 0) = Some s' \<and> rooms s' = (rooms paired)(''ABC123'' := None) \<and>
      trace s' = trace paired @ [Sent 1 (peer_left (Some Peer)), Sent 1 host_left, Deleted ''ABC123''])"
proof -
  have d: "departure 0 (Close 0)" by simp
  have p: "roomCode (conns paired 0) = Some ''ABC123''" "''ABC123'' \<noteq> []"
    "rooms paired ''ABC123'' = Some \<lparr>host = 0, peer = Some 1, users = {''u0'', ''u1''}\<rparr>"
    "host \<lparr>host = 0, peer = Some 1, users = {''u0'', ''u1''}\<rparr> = 0"
    "peer \<lparr>host = 0, peer = Some 1, users = {''u0'', ''u1''}\<rparr> = Some 1" "(1::nat) \<noteq> 0"
    "readyState (conns paired 1) = OPEN"
    by (simp_all add: paired_def)
  have r: "role (conns paired 1) = Some Peer" by (simp add: paired_def)
  from host_departure [OF reachable_paired d p] r reachable_paired d show ?thesis by simp
qed

text \<open>
  The claim as written fails: the first message the peer gets when its host leaves is
  \<^verbatim>\<open>peer-left\<close>, and \<^verbatim>\<open>host-left\<close> comes second.
\<close>

theorem host_departure_counterexample:
  "valid_run init (paired_events @ [Message 0 leave_room []]) \<and>
   map_option (received 1) (run init paired_events) = Some [room_joined ''ABC123''] \<and>
   map_option (received 1) (run init (paired_events @ [Message 0 leave_room []]))
     = Some [room_joined ''ABC123'', peer_left (Some Peer), host_left] \<and>
   peer_left (Some Peer) \<noteq> host_left"
  by (simp add: scenario_simps peer_left_def host_left_def)

text \<open>
  C5. In a running server, when the peer of a room departs (its \<^verbatim>\<open>leave-room\<close> or the close
  of its connection; its \<^verbatim>\<open>roomCode\<close> is the room's non-empty code) while the host, another
  socket, is open: the room stays in the registry with its peer null, so that a join of
  any socket succeeds, and the host is sent exactly one message, \<^verbatim>\<open>peer-left\<close>. Nothing else
  is sent.
\<close>

theorem peer_departure:
  assumes "reachable s" "departure ws e"
    and "roomCode (conns s ws) = Some code" "code \<noteq> []" "rooms s code = Some rm"
    and "peer rm = Some ws" "host rm \<noteq> ws" "readyState (conns s (host rm)) = OPEN"
  shows "\<exists>s'. apply_event s e = Some s' \<and>
          rooms s' = (rooms s)(code \<mapsto> rm\<lparr>users := users rm - {ws_id (conns s ws)}, peer := None\<rparr>) \<and>
          trace s' = trace s @ [Sent (host rm) (peer_left (role (conns s (host rm))))] \<and>
          (\<forall>c. map_option peer (rooms (handleJoinRoom s' c (Some (JStr code))) code) = Some (Some c))"
proof -
  from assms(1,5,6) have "connected s ws" using reachable_member_connected(2) by blast
  with assms(1,5,7) have "ws_id (conns s (host rm)) \<in> users rm"
    "ws_id (conns s (host rm)) \<noteq> ws_id (conns s ws)"
    using reachable_host_recorded [of s code rm ws] by auto
  with assms(2-8) show ?thesis by (rule peer_departure_local)
qed

theorem peer_departure_witness:
  "reachable paired \<and> departure 1 (Close 1) \<and>
   (\<exists>s'. apply_event paired (Close 1) = Some s' \<and>
      rooms s' = [''ABC123'' \<mapsto> \<lparr>host = 0, peer = None, users = {''u0''}\<rparr>] \<and>
      trace s' = trace paired @ [Sent 0 (peer_left (Some Host))] \<and>
      map_option peer (rooms (handleJoinRoom s' 2 (Some (JStr ''ABC123''))) ''ABC123'') = Some (Some 2))"
proof -
  have d: "departure 1 (Close 1)" by simp
  let ?rm = "\<lparr>host = 0, peer = Some 1, users = {''u0'', ''u1''}\<rparr>"
  have p: "roomCode (conns paired 1) = Some ''ABC123''" "''ABC123'' \<noteq> []"
    "rooms paired ''ABC123'' = Some ?rm" "peer ?rm = Some 1" "host ?rm \<noteq> 1"
    "readyState (conns paired (host ?rm)) = OPEN"
    by (simp_all add: paired_def)
  have diff: "{''u0'', ''u1''} - {''u1''} = {''u0''}" by auto
  have r: "role (conns paired (host ?rm)) = Some Host" "ws_id (conns paired 1) = ''u1''"
    "(rooms paired)(''ABC123'' \<mapsto> ?rm\<lparr>users := users ?rm - {''u1''}, peer := None\<rparr>)
       = [''ABC123'' \<mapsto> \<lparr>host = 0, peer = None, users = {''u0''}\<rparr>]"
    by (simp_all add: paired_def diff)
  from peer_departure [OF reachable_paired d p] r reachable_paired d show ?thesis by simp
qed

text \<open>
  The claim as written fails in two ways. A peer that has created a room of its own since
  it joined leaves that room when it disconnects: the room it had joined keeps it as peer,
  and the host hears nothing. And in a room whose code is the empty string the peer's
  leave returns at \<^verbatim>\<open>if (!ws.roomCode) return\<close>.
\<close>

theorem peer_departure_counterexample:
  "valid_run init peer_rehosts_events \<and>
   map_option (ready 1) (run init peer_rehosts_events) = Some CLOSED \<and>
   map_option (ready 0) (run init peer_rehosts_events) = Some OPEN \<and>
   map_option (room_at ''ABC123'') (run init peer_rehosts_events)
     = Some (Some \<lparr>host = 0, peer = Some 1, users = {''u1'', ''u0''}\<rparr>) \<and>
   map_option (received 0) (run init peer_rehosts_events)
     = Some [room_created ''ABC123'', peer_joined] \<and>
   valid_run init empty_code_events \<and>
   map_option (room_at []) (run init empty_code_events)
     = Some (Some \<lparr>host = 0, peer = Some 1, users = {''u1'', ''u0''}\<rparr>) \<and>
   map_option (received 0) (run init empty_code_events) = Some [room_created [], peer_joined]"
  by (simp add: scenario_simps peer_rehosts_events_def empty_code_events_def ready_def)

section \<open>Codes are compared exactly\<close>

lemma canonical_codes_step:
  assumes "canonical_codes s" "apply_event s e = Some s'" "enabled s e"
  shows "canonical_codes s'"
  using assms(2,3)
proof (cases rule: step_effect)
  case (connection c u)
  with assms(1) show ?thesis by (simp add: canonical_codes_def)
next
  case quiet
  with assms(1) show ?thesis by (simp add: canonical_codes_def)
next
  case (created ws code)
  with assms(1) show ?thesis by (auto simp: canonical_codes_def)
next
  case (joined ws code rm)
  with assms(1) show ?thesis by (auto simp: canonical_codes_def)
next
  case (deleted code)
  with assms(1) show ?thesis by (auto simp: canonical_codes_def)
next
  case (left ws code rm)
  with assms(1) show ?thesis by (auto simp: canonical_codes_def)
qed

lemma reachable_via_canonical_codes: "reachable_via ok s \<Longrightarrow> canonical_codes s"
proof (induction rule: reachable_via.induct)
  case reachable_init
  show ?case by (simp add: canonical_codes_def init_def)
next
  case (reachable_step s e s')
  from reachable_step.IH reachable_step.hyps(4) reachable_step.hyps(2)
  show ?case by (rule canonical_codes_step)
qed

lemma reachable_canonical_codes: "reachable s \<Longrightarrow> canonical_codes s"
  unfolding reachable_def by (rule reachable_via_canonical_codes)

text \<open>
  C2 (as amended). Codes are generated in upper case and compared exactly. In a running
  server every code in the registry is its own upper-case form, and \<^verbatim>\<open>join-room\<close> looks up
  exactly the string it was given: a request that supplies a case variant of a live code,
  different from the code itself, finds no room, whatever the state of the room under the
  canonical code, and is answered with 'Room not found' and no other effect.
\<close>

theorem join_room_exact_code:
  assumes "reachable s" "rooms s X = Some rm" "toUpperCase v = X" "v \<noteq> X"
    and "map_of message ''type'' = Some (JStr ''join-room'')"
    and "map_of message ''roomCode'' = Some (JStr v)"
  shows "toUpperCase X = X \<and> rooms s v = None \<and>
         on_message s ws (Some (JObj message)) rnds = Some (send s ws (error_msg ''Room not found''))"
proof -
  from assms(1) have can: "canonical_codes s" by (rule reachable_canonical_codes)
  with assms(2) have x: "toUpperCase X = X" by (auto simp: canonical_codes_def)
  have v: "rooms s v = None"
  proof (rule ccontr)
    assume "rooms s v \<noteq> None"
    then have "v \<in> dom (rooms s)" by (simp add: domIff)
    with can have "toUpperCase v = v" by (simp add: canonical_codes_def)
    with assms(3,4) show False by simp
  qed
  from v assms(6) have "handleJoinRoom s ws (map_of message ''roomCode'') = send s ws (error_msg ''Room not found'')"
    by simp
  with assms(5) x v show ?thesis by (simp add: on_message_join)
qed

lemma upper_abc: "toUpperCase ''abc123'' = ''ABC123''"
  by code_simp

theorem join_room_exact_code_witness:
  "reachable hosted \<and> toUpperCase ''abc123'' = ''ABC123'' \<and> rooms hosted ''abc123'' = None \<and>
   on_message hosted 1 (join_room ''abc123'') [] = Some (send hosted 1 (error_msg ''Room not found''))"
proof -
  have h: "rooms hosted ''ABC123'' = Some \<lparr>host = 0, peer = None, users = {''u0''}\<rparr>"
    by (simp add: hosted_def)
  have ne: "''abc123'' \<noteq> ''ABC123''" by simp
  have m: "map_of [(''type'', JStr ''join-room''), (''roomCode'', JStr ''abc123'')] ''type''
             = Some (JStr ''join-room'')"
    "map_of [(''type'', JStr ''join-room''), (''roomCode'', JStr ''abc123'')] ''roomCode''
             = Some (JStr ''abc123'')"
    by simp_all
  from join_room_exact_code [OF reachable_hosted h upper_abc ne m, of 1 "[]"]
    reachable_hosted upper_abc
  show ?thesis by (simp add: join_room_def)
qed

text \<open>
  The claim as written fails: with the room ABC123 open, a join that supplies abc123 is
  answered 'Room not found', while the same join with ABC123 succeeds.
\<close>

theorem join_room_exact_code_counterexample:
  "valid_run init (hosted_events @ [Message 1 (join_room ''abc123'') []]) \<and>
   toUpperCase ''abc123'' = ''ABC123'' \<and>
   map_option (received 1) (run init (hosted_events @ [Message 1 (join_room ''abc123'') []]))
     = Some [error_msg ''Room not found''] \<and>
   map_option (affiliation 1) (run init (hosted_events @ [Message 1 (join_room ''abc123'') []]))
     = Some (None, None) \<and>
   map_option (received 1) (run init (hosted_events @ [Message 1 (join_room ''ABC123'') []]))
     = Some [room_joined ''ABC123''] \<and>
   map_option (affiliation 1) (run init (hosted_events @ [Message 1 (join_room ''ABC123'') []]))
     = Some (Some ''ABC123'', Some Peer)"
  by (simp add: scenario_simps upper_abc)

section \<open>One session per socket\<close>

lemma in_session_iff:
  "in_session code c s = (\<exists>rm. rooms s code = Some rm \<and> member_of s rm c)"
  by (simp add: in_session_def split: option.splits)

lemma at_most_one_shrink:
  assumes "at_most_one_session s"
    and "\<And>k d. connected s' d \<Longrightarrow> in_session k d s' \<Longrightarrow> connected s d \<and> in_session k d s"
  shows "at_most_one_session s'"
  using assms unfolding at_most_one_session_def by blast

lemma at_most_one_newcomer:
  assumes "at_most_one_session s"
    and "\<And>d. connected s' d \<Longrightarrow> connected s d"
    and "\<And>k. \<not> in_session k ws s"
    and "\<And>k d. connected s' d \<Longrightarrow> in_session k d s' \<Longrightarrow> (d = ws \<and> k = code) \<or> in_session k d s"
  shows "at_most_one_session s'"
  unfolding at_most_one_session_def
proof (intro allI impI)
  fix d k k'
  assume a: "connected s' d \<and> in_session k d s' \<and> in_session k' d s'"
  then have c: "connected s d" using assms(2) by blast
  from a assms(4) have 1: "(d = ws \<and> k = code) \<or> in_session k d s"
    and 2: "(d = ws \<and> k' = code) \<or> in_session k' d s" by blast+
  show "k = k'"
  proof (cases "d = ws")
    case True
    with 1 2 assms(3) show ?thesis by blast
  next
    case False
    with 1 2 have "in_session k d s" "in_session k' d s" by blast+
    with c assms(1) show ?thesis unfolding at_most_one_session_def by blast
  qed
qed

lemma at_most_one_session_step:
  assumes "at_most_one_session s" "well_formed s"
    and "apply_event s e = Some s'" "enabled s e" "requests_unreferenced s e"
  shows "at_most_one_session s'"
  using assms(3,4)
proof (cases rule: step_effect)
  case (connection c u)
  show ?thesis
  proof (rule at_most_one_shrink [OF assms(1)])
    fix k d
    assume d: "connected s' d" "in_session k d s'"
    from d(2) connection(4) obtain rm where rm: "rooms s k = Some rm" "member_of s' rm d"
      by (auto simp: in_session_iff)
    from assms(2) rm(1) have hc: "connected s (host rm)"
      and pc: "\<And>p. peer rm = Some p \<Longrightarrow> connected s p"
      and uc: "\<And>v. v \<in> users rm \<Longrightarrow> \<exists>c'. connected s c' \<and> ws_id (conns s c') = v"
      unfolding well_formed_def members_connected_def by blast+
    have "d \<noteq> c"
    proof
      assume "d = c"
      with rm(2) connection(5) have "host rm = c \<or> peer rm = Some c \<or> u \<in> users rm"
        by (simp add: member_of_def)
      then show False
      proof (elim disjE)
        assume "host rm = c" with hc connection(2) show False by simp
      next
        assume "peer rm = Some c" with pc connection(2) show False by blast
      next
        assume "u \<in> users rm"
        with uc connection(3) show False by blast
      qed
    qed
    with connection(7) have same: "conns s' d = conns s d" by simp
    with d(1) have "connected s d" by (simp add: connected_def)
    moreover from rm same have "in_session k d s"
      by (auto simp: in_session_iff member_of_def)
    ultimately show "connected s d \<and> in_session k d s" by simp
  qed
next
  case quiet
  from quiet(2) have eq: "\<And>c. ws_id (conns s' c) = ws_id (conns s c)" "\<And>c. connected s' c = connected s c"
    by (simp_all add: same_sockets_def)
  show ?thesis
    by (rule at_most_one_shrink [OF assms(1)]) (simp add: in_session_iff member_of_def eq quiet(1))
next
  case (created ws code)
  from created(6) have eq: "\<And>c. ws_id (conns s' c) = ws_id (conns s c)" "\<And>c. connected s' c = connected s c"
    by (simp_all add: same_sockets_def)
  from assms(5) created(1) have free: "\<And>k. \<not> in_session k ws s"
    by (simp add: requests_unreferenced_def)
  from assms(2) have uniq: "\<And>d. connected s d \<Longrightarrow> ws_id (conns s d) = ws_id (conns s ws) \<Longrightarrow> d = ws"
    using created(2) unfolding well_formed_def unique_ids_def by blast
  show ?thesis
  proof (rule at_most_one_newcomer [OF assms(1) _ free, of s' code])
    fix d assume "connected s' d" then show "connected s d" by (simp add: eq)
  next
    fix k d
    assume d: "connected s' d" "in_session k d s'"
    show "(d = ws \<and> k = code) \<or> in_session k d s"
    proof (cases "k = code")
      case True
      with d(2) created(5) have "d = ws \<or> ws_id (conns s d) = ws_id (conns s ws)"
        by (auto simp: in_session_iff member_of_def eq)
      with d(1) uniq have "d = ws" by (auto simp: eq)
      with True show ?thesis by simp
    next
      case False
      with d(2) created(5) have "in_session k d s"
        by (auto simp: in_session_iff member_of_def eq)
      then show ?thesis by simp
    qed
  qed
next
  case (joined ws code rm)
  from joined(6) have eq: "\<And>c. ws_id (conns s' c) = ws_id (conns s c)" "\<And>c. connected s' c = connected s c"
    by (simp_all add: same_sockets_def)
  from assms(5) joined(1) have free: "\<And>k. \<not> in_session k ws s"
    by (simp add: requests_unreferenced_def)
  from assms(2) have uniq: "\<And>d. connected s d \<Longrightarrow> ws_id (conns s d) = ws_id (conns s ws) \<Longrightarrow> d = ws"
    using joined(2) unfolding well_formed_def unique_ids_def by blast
  show ?thesis
  proof (rule at_most_one_newcomer [OF assms(1) _ free, of s' code])
    fix d assume "connected s' d" then show "connected s d" by (simp add: eq)
  next
    fix k d
    assume d: "connected s' d" "in_session k d s'"
    show "(d = ws \<and> k = code) \<or> in_session k d s"
    proof (cases "k = code")
      case True
      with d(2) joined(5) have "host rm = d \<or> d = ws \<or> ws_id (conns s d) = ws_id (conns s ws) \<or>
          ws_id (conns s d) \<in> users rm"
        by (auto simp: in_session_iff member_of_def eq)
      with d(1) uniq have "d = ws \<or> host rm = d \<or> ws_id (conns s d) \<in> users rm"
        by (auto simp: eq)
      with True joined(3) show ?thesis
        by (auto simp: in_session_iff member_of_def)
    next
      case False
      with d(2) joined(5) have "in_session k d s"
        by (auto simp: in_session_iff member_of_def eq)
      then show ?thesis by simp
    qed
  qed
next
  case (deleted code)
  from deleted(2) have eq: "\<And>c. ws_id (conns s' c) = ws_id (conns s c)" "\<And>c. connected s' c = connected s c"
    by (simp_all add: same_sockets_def)
  show ?thesis
    by (rule at_most_one_shrink [OF assms(1)])
       (auto simp: in_session_iff member_of_def eq deleted(1) split: if_splits)
next
  case (left ws code rm)
  from left(5) have eq: "\<And>c. ws_id (conns s' c) = ws_id (conns s c)" "\<And>c. connected s' c = connected s c"
    by (simp_all add: same_sockets_def)
  show ?thesis
  proof (rule at_most_one_shrink [OF assms(1)])
    fix k d
    assume d: "connected s' d" "in_session k d s'"
    have "in_session k d s"
    proof (cases "k = code")
      case True
      with d(2) left(4) have "host rm = d \<or> peer rm = Some d \<or> ws_id (conns s d) \<in> users rm"
        by (auto simp: in_session_iff member_of_def eq split: if_splits)
      with True left(2) show ?thesis by (auto simp: in_session_iff member_of_def)
    next
      case False
      with d(2) left(4) show ?thesis by (auto simp: in_session_iff member_of_def eq)
    qed
    with d(1) show "connected s d \<and> in_session k d s" by (simp add: eq)
  qed
qed

lemma at_most_one_session_init: "at_most_one_session init"
  by (simp add: at_most_one_session_def in_session_def init_def)

text \<open>
  C7 (as amended). The server does not check that a socket asking for a room is in none.
  In every state reached by events in which \<^verbatim>\<open>create-room\<close> and \<^verbatim>\<open>join-room\<close> come only from
  sockets that no room in the registry references (as host, as peer or through the member
  set), every connected socket is referenced by at most one room.
\<close>

theorem one_session_per_socket:
  "reachable_via requests_unreferenced s \<Longrightarrow> at_most_one_session s"
proof (induction rule: reachable_via.induct)
  case reachable_init
  show ?case by (rule at_most_one_session_init)
next
  case (reachable_step s e s')
  from reachable_step.hyps(1) have "well_formed s" by (rule reachable_via_well_formed)
  with reachable_step.IH show ?case
    using reachable_step.hyps(4,2,3) by (rule at_most_one_session_step)
qed

lemma admitted_paired: "admitted requests_unreferenced init paired_events"
  by (simp add: scenario_simps requests_unreferenced_def in_session_def member_of_def type_tag_def)

theorem one_session_per_socket_witness:
  "reachable_via requests_unreferenced paired \<and> at_most_one_session paired \<and>
   in_session ''ABC123'' 0 paired \<and> in_session ''ABC123'' 1 paired"
proof -
  have r: "reachable_via requests_unreferenced paired"
    using reachable_init admitted_paired run_paired by (rule reachable_via_admitted)
  have "in_session ''ABC123'' 0 paired" "in_session ''ABC123'' 1 paired"
    by (simp_all add: in_session_def member_of_def paired_def)
  with r one_session_per_socket [OF r] show ?thesis by simp
qed

text \<open>
  The claim as written fails: a socket that sends \<^verbatim>\<open>create-room\<close> twice is the host of two
  rooms at once.
\<close>

theorem one_session_per_socket_counterexample:
  "valid_run init double_create_events \<and>
   map_option (ready 0) (run init double_create_events) = Some OPEN \<and>
   map_option (room_at ''ABC123'') (run init double_create_events)
     = Some (Some \<lparr>host = 0, peer = None, users = {''u0''}\<rparr>) \<and>
   map_option (room_at ''DEF456'') (run init double_create_events)
     = Some (Some \<lparr>host = 0, peer = None, users = {''u0''}\<rparr>) \<and>
   map_option (in_session ''ABC123'' 0) (run init double_create_events) = Some True \<and>
   map_option (in_session ''DEF456'' 0) (run init double_create_events) = Some True \<and>
   ''ABC123'' \<noteq> ''DEF456''"
  by (simp add: scenario_simps double_create_events_def ready_def in_session_def member_of_def)

section \<open>What a host's departure leaves on the peer\<close>









end
